theory Spec2Isabelle
  imports Complex_Main
begin

section \<open>The environment of \<open>capture_every_second\<close>\<close>

text \<open>
  \<open>src/youtube_ss.py\<close> is one procedure over three external capabilities: the file
  system (\<open>os.makedirs\<close>, \<open>cv2.imwrite\<close>), the stream resolver
  (\<open>YoutubeDL.extract_info\<close>) and the decoder (\<open>cv2.VideoCapture\<close>). The embedding
  passes the file system and the decoder's position as an explicit state, records every
  external call in a trace, and returns every raised exception as a value.
  The \<open>print\<close> calls are informational and are not modelled.
\<close>

subsection \<open>Python values\<close>

text \<open>
  A Python \<open>float\<close>: a finite binary64 value is a rational number; the three special
  values are kept apart because \<open>int()\<close>, \<open>/\<close> and \<open>>\<close> treat them differently.
\<close>

datatype pyfloat = Finite rat | PosInf | NegInf | NaN

text \<open>
  The exceptions that can leave the procedure. \<open>RuntimeError\<close> is raised at line 62
  (the spec's StreamOpenError) and \<open>ValueError\<close> at line 81 (the spec's RangeError), or by
  \<open>int(nan)\<close>; \<open>ZeroDivisionError\<close> comes from the division of line 69,
  \<open>OverflowError\<close> from \<open>int(inf)\<close>, \<open>KeyError\<close> from \<open>info['url']\<close>,
  \<open>DownloadError\<close> from \<open>extract_info\<close> (the spec's ResolutionError), \<open>CvError\<close> from
  \<open>cv2.imwrite\<close>, and the three \<open>OSError\<close>s from \<open>os.makedirs\<close>.
\<close>

datatype exn =
    FileNotFoundError | FileExistsError | NotADirectoryError
  | DownloadError | KeyError
  | RuntimeError
  | OverflowError | ZeroDivisionError | ValueError
  | CvError

datatype frame = Frame nat

text \<open>\<open>int(x)\<close> on a float: truncation toward zero; \<open>nan\<close> and the infinities raise.\<close>

definition py_int :: "pyfloat \<Rightarrow> exn + int" where
  "py_int x =
     (case x of
        Finite q \<Rightarrow> Inr (if 0 \<le> q then \<lfloor>q\<rfloor> else \<lceil>q\<rceil>)
      | PosInf \<Rightarrow> Inl OverflowError
      | NegInf \<Rightarrow> Inl OverflowError
      | NaN \<Rightarrow> Inl ValueError)"

text \<open>
  \<open>n / x\<close> for an \<open>int n\<close> and a \<open>float x\<close>. A zero divisor raises; otherwise the exact
  quotient is rounded to binary64 by \<open>rnd\<close> (round to nearest, overflow to an infinity).
  Nothing below depends on which rationals are representable, so the rounding is a
  parameter. \<open>n\<close> itself converts exactly: it is \<open>int\<close> of a binary64 value.
\<close>

definition true_div :: "(rat \<Rightarrow> pyfloat) \<Rightarrow> int \<Rightarrow> pyfloat \<Rightarrow> exn + pyfloat" where
  "true_div rnd n x =
     (case x of
        Finite q \<Rightarrow> if q = 0 then Inl ZeroDivisionError else Inr (rnd (of_int n / q))
      | PosInf \<Rightarrow> Inr (Finite 0)
      | NegInf \<Rightarrow> Inr (Finite 0)
      | NaN \<Rightarrow> Inr NaN)"

text \<open>\<open>e > x\<close> for an \<open>int e\<close> and a \<open>float x\<close>: exact; every comparison with \<open>nan\<close> is false.\<close>

definition int_gt :: "int \<Rightarrow> pyfloat \<Rightarrow> bool" where
  "int_gt e x =
     (case x of
        Finite q \<Rightarrow> q < of_int e
      | PosInf \<Rightarrow> False
      | NegInf \<Rightarrow> True
      | NaN \<Rightarrow> False)"

subsection \<open>File names\<close>

definition digit_char :: "nat \<Rightarrow> char" where
  "digit_char d = ''0123456789'' ! d"

fun dec_digits :: "nat \<Rightarrow> string" where
  "dec_digits n =
     (if n < 10 then [digit_char n]
      else dec_digits (n div 10) @ [digit_char (n mod 10)])"

declare dec_digits.simps [simp del]

definition zfill :: "nat \<Rightarrow> string \<Rightarrow> string" where
  "zfill w s = replicate (w - length s) (CHR ''0'') @ s"

text \<open>The format specification \<open>04d\<close>: the sign counts towards the width of 4.\<close>

definition fmt_04d :: "int \<Rightarrow> string" where
  "fmt_04d i =
     (if i < 0 then CHR ''-'' # zfill 3 (dec_digits (nat (- i)))
      else zfill 4 (dec_digits (nat i)))"

text \<open>\<open>f"frame_{sec:04d}.jpg"\<close> (line 93).\<close>

definition frame_name :: "int \<Rightarrow> string" where
  "frame_name sec = ''frame_'' @ fmt_04d sec @ ''.jpg''"

text \<open>\<open>os.path.join\<close> of two components (POSIX).\<close>

definition path_join :: "string \<Rightarrow> string \<Rightarrow> string" where
  "path_join a b =
     (if b \<noteq> [] \<and> hd b = CHR ''/'' then b
      else if a = [] \<or> last a = CHR ''/'' then a @ b
      else a @ ''/'' @ b)"

text \<open>\<open>fname\<close> of line 93.\<close>

definition fname :: "string \<Rightarrow> int \<Rightarrow> string" where
  "fname output_dir sec = path_join output_dir (frame_name sec)"

subsection \<open>The external world\<close>

text \<open>
  What \<open>cv2.VideoCapture(url)\<close> gives: whether it opened, the two properties read at
  lines 65 and 67 (as the floats \<open>cap.get\<close> returns), and the frame decoded at a
  position in milliseconds, if any.
\<close>

record stream =
  is_opened :: bool
  prop_fps :: pyfloat
  prop_frame_count :: pyfloat
  decode_at :: "int \<Rightarrow> frame option"

text \<open>
  \<open>cv2.imwrite\<close> writes the file and returns \<open>True\<close>, or returns \<open>False\<close> when the file
  could not be written, or raises.
\<close>

datatype write_outcome = Written | NotWritten | WriteRaised

record env =
  extract_info :: "string \<Rightarrow> exn + (string \<rightharpoonup> string)"
  video_capture :: "string \<Rightarrow> stream"
  imwrite_outcome :: "string \<Rightarrow> write_outcome"
  float_round :: "rat \<Rightarrow> pyfloat"

datatype event =
    MkDir string | Resolve string | Open string
  | Seek int | Read | Write string | Release

text \<open>Paths are strings, compared as they are written.\<close>

record filesystem =
  dirs :: "string set"
  files :: "string \<rightharpoonup> frame"

record state = filesystem +
  pos_msec :: int
  trace :: "event list"

type_synonym 'a res = "(exn + 'a) \<times> state"

definition init :: "filesystem \<Rightarrow> state" where
  "init fs = \<lparr>dirs = dirs fs, files = files fs, pos_msec = 0, trace = []\<rparr>"

definition fs_of :: "state \<Rightarrow> filesystem" where
  "fs_of st = \<lparr>dirs = dirs st, files = files st\<rparr>"

definition emit :: "event \<Rightarrow> state \<Rightarrow> state" where
  "emit e st = st\<lparr>trace := trace st @ [e]\<rparr>"

text \<open>The path itself and every proper prefix of it that ends before a separator.\<close>

definition ancestors :: "string \<Rightarrow> string list" where
  "ancestors p = [take i p. i \<leftarrow> [1..<length p], p ! i = CHR ''/''] @ [p]"

text \<open>
  \<open>os.makedirs(p, exist_ok=True)\<close>: creates \<open>p\<close> and its missing parents; an existing
  directory is accepted, an existing regular file at \<open>p\<close> or at a parent is not. The final
  \<open>mkdir\<close> reports a file at \<open>p\<close> itself, also when \<open>p\<close> is written with trailing
  slashes, as \<open>FileExistsError\<close>, and a file at a proper parent as \<open>NotADirectoryError\<close>.
\<close>

definition makedirs :: "string \<Rightarrow> state \<Rightarrow> unit res" where
  "makedirs p st =
     (let st1 = emit (MkDir p) st in
      if p = [] then (Inl FileNotFoundError, st1)
      else if \<exists>a \<in> set (ancestors p). files st a \<noteq> None
          \<and> set (drop (length a) p) \<subseteq> {CHR ''/''}
        then (Inl FileExistsError, st1)
      else if \<exists>a \<in> set (butlast (ancestors p)). files st a \<noteq> None
        then (Inl NotADirectoryError, st1)
      else (Inr (), st1\<lparr>dirs := dirs st1 \<union> set (ancestors p)\<rparr>))"

text \<open>Lines 53 to 56: the metadata, then \<open>info['url']\<close>.\<close>

definition ydl_extract :: "env \<Rightarrow> string \<Rightarrow> state \<Rightarrow> string res" where
  "ydl_extract env youtube_url st =
     (let st1 = emit (Resolve youtube_url) st in
      case extract_info env youtube_url of
        Inl e \<Rightarrow> (Inl e, st1)
      | Inr info \<Rightarrow>
          (case info ''url'' of
             None \<Rightarrow> (Inl KeyError, st1)
           | Some stream_url \<Rightarrow> (Inr stream_url, st1)))"

text \<open>Lines 60 to 62.\<close>

definition cap_open :: "env \<Rightarrow> string \<Rightarrow> state \<Rightarrow> stream res" where
  "cap_open env stream_url st =
     (let st1 = emit (Open stream_url) st; cap = video_capture env stream_url in
      if \<not> is_opened cap then (Inl RuntimeError, st1) else (Inr cap, st1))"

definition cap_set :: "int \<Rightarrow> state \<Rightarrow> state" where
  "cap_set ms st = emit (Seek ms) (st\<lparr>pos_msec := ms\<rparr>)"

definition cap_read :: "stream \<Rightarrow> state \<Rightarrow> frame option \<times> state" where
  "cap_read cap st = (decode_at cap (pos_msec st), emit Read st)"

definition cap_release :: "state \<Rightarrow> state" where
  "cap_release st = emit Release st"

definition imwrite :: "env \<Rightarrow> string \<Rightarrow> frame \<Rightarrow> state \<Rightarrow> bool res" where
  "imwrite env path fr st =
     (let st1 = emit (Write path) st in
      case imwrite_outcome env path of
        Written \<Rightarrow> (Inr True, st1\<lparr>files := (files st1)(path \<mapsto> fr)\<rparr>)
      | NotWritten \<Rightarrow> (Inr False, st1)
      | WriteRaised \<Rightarrow> (Inl CvError, st1))"

section \<open>The procedure\<close>

text \<open>
  Lines 41 to 70: create the directory, resolve the link, open the stream and compute
  the duration. The result is the capture and \<open>duration\<close>.
\<close>

definition open_and_measure ::
  "env \<Rightarrow> string \<Rightarrow> string \<Rightarrow> state \<Rightarrow> (stream \<times> pyfloat) res" where
  "open_and_measure env youtube_url output_dir st =
     (case makedirs output_dir st of
        (Inl e, st1) \<Rightarrow> (Inl e, st1)
      | (Inr _, st1) \<Rightarrow>
     (case ydl_extract env youtube_url st1 of
        (Inl e, st2) \<Rightarrow> (Inl e, st2)
      | (Inr stream_url, st2) \<Rightarrow>
     (case cap_open env stream_url st2 of
        (Inl e, st3) \<Rightarrow> (Inl e, st3)
      | (Inr cap, st3) \<Rightarrow>
     (case py_int (prop_frame_count cap) of
        Inl e \<Rightarrow> (Inl e, st3)
      | Inr frame_count \<Rightarrow>
     (case true_div (float_round env) frame_count (prop_fps cap) of
        Inl e \<Rightarrow> (Inl e, st3)
      | Inr duration \<Rightarrow> (Inr (cap, duration), st3))))))"

text \<open>Lines 77 and 78.\<close>

definition effective_end :: "int option \<Rightarrow> pyfloat \<Rightarrow> exn + int" where
  "effective_end end_sec duration =
     (case end_sec of
        None \<Rightarrow> py_int duration
      | Some e \<Rightarrow> if int_gt e duration then py_int duration else Inr e)"

text \<open>Lines 75 to 81: the range the loop runs over, or the error of line 81.\<close>

definition normalize_range :: "int \<Rightarrow> int option \<Rightarrow> pyfloat \<Rightarrow> exn + int \<times> int" where
  "normalize_range start_sec end_sec duration =
     (let start_sec = max 0 start_sec in
      case effective_end end_sec duration of
        Inl e \<Rightarrow> Inl e
      | Inr end_sec \<Rightarrow>
          if start_sec > end_sec then Inl ValueError else Inr (start_sec, end_sec))"

text \<open>Lines 84 to 97: the loop body for the seconds still to do; \<open>break\<close> returns.\<close>

fun frame_loop :: "env \<Rightarrow> stream \<Rightarrow> string \<Rightarrow> int list \<Rightarrow> state \<Rightarrow> unit res" where
  "frame_loop env cap output_dir [] st = (Inr (), st)"
| "frame_loop env cap output_dir (sec # rest) st =
     (case cap_read cap (cap_set (sec * 1000) st) of
        (None, st2) \<Rightarrow> (Inr (), st2)
      | (Some fr, st2) \<Rightarrow>
          (case imwrite env (fname output_dir sec) fr st2 of
             (Inl e, st3) \<Rightarrow> (Inl e, st3)
           | (Inr _, st3) \<Rightarrow> frame_loop env cap output_dir rest st3))"

definition capture_every_second ::
  "env \<Rightarrow> filesystem \<Rightarrow> string \<Rightarrow> string \<Rightarrow> int \<Rightarrow> int option \<Rightarrow> unit res" where
  "capture_every_second env fs youtube_url output_dir start_sec end_sec =
     (case open_and_measure env youtube_url output_dir (init fs) of
        (Inl e, st) \<Rightarrow> (Inl e, st)
      | (Inr (cap, duration), st) \<Rightarrow>
     (case normalize_range start_sec end_sec duration of
        Inl e \<Rightarrow> (Inl e, st)
      | Inr (s, e) \<Rightarrow>
     (case frame_loop env cap output_dir [s..e] st of
        (Inl x, st') \<Rightarrow> (Inl x, st')
      | (Inr _, st') \<Rightarrow> (Inr (), cap_release st'))))"

section \<open>Auxiliary notions for the proofs\<close>

text \<open>Reading a decimal numeral back, to show that file names determine their second.\<close>

definition digit_val :: "char \<Rightarrow> nat" where
  "digit_val c = of_char c - 48"

definition str_val :: "string \<Rightarrow> nat" where
  "str_val s = foldl (\<lambda>a c. 10 * a + digit_val c) 0 s"

text \<open>What \<open>os.path.join\<close> puts in front of a relative name.\<close>

definition dir_prefix :: "string \<Rightarrow> string" where
  "dir_prefix a = (if a = [] \<or> last a = CHR ''/'' then a else a @ ''/'')"

text \<open>The calls of one loop iteration that reaches its write (lines 85, 87 and 95).\<close>

definition iter_events :: "string \<Rightarrow> int \<Rightarrow> event list" where
  "iter_events d k = [Seek (k * 1000), Read, Write (fname d k)]"

text \<open>The iteration for second \<open>k\<close> runs to its end: a frame is decoded and the write
  does not raise.\<close>

definition completes :: "env \<Rightarrow> stream \<Rightarrow> string \<Rightarrow> int \<Rightarrow> bool" where
  "completes env cap d k \<longleftrightarrow>
     decode_at cap (k * 1000) \<noteq> None \<and> imwrite_outcome env (fname d k) \<noteq> WriteRaised"

subsection \<open>Concrete worlds for the scenarios of the specification\<close>

text \<open>
  A stream that opened, with the given frame rate and frame count, decoding a frame at
  every position but those in \<open>gaps\<close>; a world that resolves every link to
  \<open>stream\<close>, writes as \<open>w\<close> says and divides exactly; a file system with nothing in it.
\<close>

definition demo_stream :: "pyfloat \<Rightarrow> pyfloat \<Rightarrow> int list \<Rightarrow> stream" where
  "demo_stream fps frame_count gaps =
     \<lparr>is_opened = True, prop_fps = fps, prop_frame_count = frame_count,
      decode_at = (\<lambda>ms. if ms \<in> set gaps then None else Some (Frame (nat ms)))\<rparr>"

definition demo_env :: "stream \<Rightarrow> (string \<Rightarrow> write_outcome) \<Rightarrow> env" where
  "demo_env cap w =
     \<lparr>extract_info = (\<lambda>u. Inr [''url'' \<mapsto> ''stream'']), video_capture = (\<lambda>u. cap),
      imwrite_outcome = w, float_round = Finite\<rparr>"

definition empty_fs :: filesystem where
  "empty_fs = \<lparr>dirs = {}, files = Map.empty\<rparr>"

section \<open>Properties of the parts\<close>

subsection \<open>File names\<close>

lemma digit_val_digit_char: "d < 10 \<Longrightarrow> digit_val (digit_char d) = d"
proof -
  assume "d < 10"
  then have "d \<in> {0, 1, 2, 3, 4, 5, 6, 7, 8, 9}" by auto
  then show ?thesis
    by (auto simp: digit_val_def digit_char_def)
qed

lemma str_val_snoc: "str_val (s @ [c]) = 10 * str_val s + digit_val c"
  by (simp add: str_val_def)

lemma str_val_dec_digits: "str_val (dec_digits n) = n"
proof (induction n rule: dec_digits.induct)
  case (1 n)
  show ?case
  proof (cases "n < 10")
    case True
    then show ?thesis
      by (subst dec_digits.simps) (simp add: str_val_def digit_val_digit_char)
  next
    case False
    with "1" have "str_val (dec_digits (n div 10)) = n div 10" by simp
    with False show ?thesis
      by (subst dec_digits.simps) (simp add: str_val_snoc digit_val_digit_char)
  qed
qed

lemma foldl_zeros: "foldl (\<lambda>a c. 10 * a + digit_val c) 0 (replicate m (CHR ''0'')) = 0"
  by (induction m) (simp_all add: digit_val_def)

lemma str_val_zfill: "str_val (zfill w s) = str_val s"
  by (simp add: zfill_def str_val_def foldl_zeros)

lemma str_val_fmt: "0 \<le> i \<Longrightarrow> str_val (fmt_04d i) = nat i"
  by (simp add: fmt_04d_def str_val_zfill str_val_dec_digits)

lemma fmt_04d_inj: "0 \<le> i \<Longrightarrow> 0 \<le> j \<Longrightarrow> fmt_04d i = fmt_04d j \<Longrightarrow> i = j"
  by (metis str_val_fmt int_nat_eq)

lemma frame_name_inj: "0 \<le> i \<Longrightarrow> 0 \<le> j \<Longrightarrow> frame_name i = frame_name j \<Longrightarrow> i = j"
  by (auto simp: frame_name_def dest: fmt_04d_inj)

lemma fname_prefix: "fname d k = dir_prefix d @ frame_name k"
  by (simp add: fname_def path_join_def dir_prefix_def frame_name_def)

lemma fname_inj: "0 \<le> i \<Longrightarrow> 0 \<le> j \<Longrightarrow> fname d i = fname d j \<Longrightarrow> i = j"
  by (auto simp: fname_prefix dest: frame_name_inj)

lemma length_fname: "length d < length (fname d k)"
  by (simp add: fname_prefix dir_prefix_def frame_name_def)

lemma length_ancestors: "a \<in> set (ancestors p) \<Longrightarrow> length a \<le> length p"
  by (auto simp: ancestors_def)

lemma fname_not_ancestor: "fname d k \<notin> set (ancestors d)"
  using length_fname [of d k] length_ancestors [of "fname d k" d] by auto

lemma dec_digits_nonempty: "dec_digits n \<noteq> []"
  by (subst dec_digits.simps) simp

lemma length_fmt_04d: "0 \<le> i \<Longrightarrow> 4 \<le> length (fmt_04d i)"
  by (simp add: fmt_04d_def zfill_def)

lemma length_dec_digits: "n < 10 ^ m \<Longrightarrow> 0 < m \<Longrightarrow> length (dec_digits n) \<le> m"
proof (induction n arbitrary: m rule: dec_digits.induct)
  case (1 n)
  show ?case
  proof (cases "n < 10")
    case True
    with "1.prems" show ?thesis by (subst dec_digits.simps) simp
  next
    case False
    with "1.prems" obtain m' where m: "m = Suc m'" by (cases m) auto
    with False "1.prems" have "0 < m'" by (cases m') auto
    moreover from m "1.prems" have "n div 10 < 10 ^ m'" by (simp add: less_mult_imp_div_less mult.commute)
    ultimately have "length (dec_digits (n div 10)) \<le> m'" using "1.IH" False by simp
    with m False show ?thesis by (subst dec_digits.simps) simp
  qed
qed

lemma length_fmt_04d_eq: "0 \<le> i \<Longrightarrow> i < 10000 \<Longrightarrow> length (fmt_04d i) = 4"
  using length_dec_digits [of "nat i" 4] by (simp add: fmt_04d_def zfill_def)

subsection \<open>The loop\<close>

lemmas step_defs = cap_set_def cap_read_def imwrite_def emit_def Let_def

lemma loop_head_stop:
  "decode_at cap (k * 1000) = None \<Longrightarrow>
   frame_loop env cap d (k # rest) st = (Inr (), emit Read (cap_set (k * 1000) st))"
  by (simp add: cap_read_def cap_set_def emit_def)

lemma loop_head_raise:
  "decode_at cap (k * 1000) = Some fr \<Longrightarrow> imwrite_outcome env (fname d k) = WriteRaised \<Longrightarrow>
   frame_loop env cap d (k # rest) st =
     (Inl CvError, emit (Write (fname d k)) (emit Read (cap_set (k * 1000) st)))"
  by (simp add: step_defs)

lemma loop_append:
  "\<forall>k\<in>set ks. completes env cap d k \<Longrightarrow>
   frame_loop env cap d (ks @ rest) st =
     frame_loop env cap d rest (snd (frame_loop env cap d ks st))"
  by (induction ks arbitrary: st)
     (auto simp: completes_def step_defs split: write_outcome.splits)

lemma loop_all:
  "\<forall>k\<in>set ks. completes env cap d k \<Longrightarrow>
   fst (frame_loop env cap d ks st) = Inr () \<and>
   trace (snd (frame_loop env cap d ks st)) = trace st @ concat (map (iter_events d) ks)"
  by (induction ks arbitrary: st)
     (auto simp: completes_def step_defs iter_events_def split: write_outcome.splits)

lemma loop_dirs: "dirs (snd (frame_loop env cap d ks st)) = dirs st"
  by (induction ks arbitrary: st)
     (auto simp: step_defs split: write_outcome.splits option.splits)

lemma loop_files_frame:
  "f \<notin> fname d ` set ks \<Longrightarrow> files (snd (frame_loop env cap d ks st)) f = files st f"
  by (induction ks arbitrary: st)
     (auto simp: step_defs split: write_outcome.splits option.splits)

lemma loop_step:
  "decode_at cap (k * 1000) = Some fr \<Longrightarrow> imwrite_outcome env (fname d k) \<noteq> WriteRaised \<Longrightarrow>
   frame_loop env cap d (k # rest) st =
     frame_loop env cap d rest (snd (imwrite env (fname d k) fr (emit Read (cap_set (k * 1000) st))))"
  by (auto simp: step_defs split: write_outcome.splits)

lemma files_after_write:
  "files (snd (imwrite env p fr (emit Read (cap_set ms st)))) =
     (if imwrite_outcome env p = Written then (files st)(p \<mapsto> fr) else files st)"
  by (auto simp: step_defs split: write_outcome.splits)

lemma loop_files_dom:
  "\<forall>k\<in>set ks. completes env cap d k \<Longrightarrow>
   dom (files (snd (frame_loop env cap d ks st))) =
     dom (files st) \<union> {fname d k |k. k \<in> set ks \<and> imwrite_outcome env (fname d k) = Written}"
proof (induction ks arbitrary: st)
  case Nil
  then show ?case by simp
next
  case (Cons a ks)
  from Cons.prems obtain fr where fr: "decode_at cap (a * 1000) = Some fr"
    and nr: "imwrite_outcome env (fname d a) \<noteq> WriteRaised"
    by (auto simp: completes_def)
  from Cons.prems have "\<forall>k\<in>set ks. completes env cap d k" by simp
  note IH = Cons.IH [OF this]
  show ?case
    unfolding loop_step [OF fr nr] IH files_after_write by auto
qed

lemma loop_files_written:
  "\<forall>j\<in>set ks. completes env cap d j \<and> 0 \<le> j \<Longrightarrow> distinct ks \<Longrightarrow> k \<in> set ks \<Longrightarrow>
   imwrite_outcome env (fname d k) = Written \<Longrightarrow>
   files (snd (frame_loop env cap d ks st)) (fname d k) = decode_at cap (k * 1000)"
proof (induction ks arbitrary: st)
  case Nil
  then show ?case by simp
next
  case (Cons a ks)
  from Cons.prems obtain fr where fr: "decode_at cap (a * 1000) = Some fr"
    by (auto simp: completes_def)
  show ?case
  proof (cases "k = a")
    case True
    from Cons.prems have "fname d a \<notin> fname d ` set ks"
      by (auto dest: fname_inj)
    then show ?thesis
      using True fr Cons.prems(4) by (simp add: step_defs loop_files_frame)
  next
    case False
    with Cons.prems have "k \<in> set ks" by simp
    with Cons.prems Cons.IH show ?thesis
      using fr by (auto simp: completes_def step_defs split: write_outcome.splits)
  qed
qed

lemma loop_uniform:
  "\<exists>r X D. \<forall>st. fst (frame_loop env cap d ks st) = r \<and>
     trace (snd (frame_loop env cap d ks st)) = trace st @ X \<and>
     files (snd (frame_loop env cap d ks st)) = files st ++ D"
proof (induction ks)
  case Nil
  have "\<forall>st. fst (frame_loop env cap d [] st) = Inr () \<and>
     trace (snd (frame_loop env cap d [] st)) = trace st @ [] \<and>
     files (snd (frame_loop env cap d [] st)) = files st ++ Map.empty" by simp
  then show ?case by blast
next
  case (Cons k ks)
  then obtain r X D where IH: "\<And>st. fst (frame_loop env cap d ks st) = r \<and>
     trace (snd (frame_loop env cap d ks st)) = trace st @ X \<and>
     files (snd (frame_loop env cap d ks st)) = files st ++ D" by blast
  show ?case
  proof (cases "decode_at cap (k * 1000)")
    case None
    then have "\<forall>st. fst (frame_loop env cap d (k # ks) st) = Inr () \<and>
       trace (snd (frame_loop env cap d (k # ks) st)) = trace st @ [Seek (k * 1000), Read] \<and>
       files (snd (frame_loop env cap d (k # ks) st)) = files st ++ Map.empty"
      by (simp add: step_defs)
    then show ?thesis by blast
  next
    case (Some fr)
    show ?thesis
    proof (cases "imwrite_outcome env (fname d k)")
      case Written
      with Some have "\<forall>st. fst (frame_loop env cap d (k # ks) st) = r \<and>
         trace (snd (frame_loop env cap d (k # ks) st)) = trace st @ (iter_events d k @ X) \<and>
         files (snd (frame_loop env cap d (k # ks) st)) = files st ++ ([fname d k \<mapsto> fr] ++ D)"
        by (simp add: step_defs IH iter_events_def)
      then show ?thesis by blast
    next
      case NotWritten
      with Some have "\<forall>st. fst (frame_loop env cap d (k # ks) st) = r \<and>
         trace (snd (frame_loop env cap d (k # ks) st)) = trace st @ (iter_events d k @ X) \<and>
         files (snd (frame_loop env cap d (k # ks) st)) = files st ++ D"
        by (simp add: step_defs IH iter_events_def)
      then show ?thesis by blast
    next
      case WriteRaised
      with Some have "\<forall>st. fst (frame_loop env cap d (k # ks) st) = Inl CvError \<and>
         trace (snd (frame_loop env cap d (k # ks) st)) = trace st @ iter_events d k \<and>
         files (snd (frame_loop env cap d (k # ks) st)) = files st ++ Map.empty"
        by (simp add: step_defs iter_events_def)
      then show ?thesis by blast
    qed
  qed
qed

lemma loop_cases:
  obtains
    (complete) "\<forall>k\<in>set ks. completes env cap d k"
  | (stop) pre k rest where "ks = pre @ k # rest" "\<forall>j\<in>set pre. completes env cap d j"
      "decode_at cap (k * 1000) = None"
  | (raise) pre k rest fr where "ks = pre @ k # rest" "\<forall>j\<in>set pre. completes env cap d j"
      "decode_at cap (k * 1000) = Some fr" "imwrite_outcome env (fname d k) = WriteRaised"
proof (cases "\<forall>k\<in>set ks. completes env cap d k")
  case True
  then show ?thesis by (rule complete)
next
  case False
  then have "\<exists>k\<in>set ks. \<not> completes env cap d k" by simp
  then obtain pre k rest where s: "ks = pre @ k # rest" "\<not> completes env cap d k"
      "\<forall>j\<in>set pre. \<not> \<not> completes env cap d j"
    using split_list_first_prop [of ks "\<lambda>k. \<not> completes env cap d k"] by blast
  show ?thesis
  proof (cases "decode_at cap (k * 1000)")
    case None
    with s show ?thesis by (auto intro: stop)
  next
    case (Some fr)
    with s have "imwrite_outcome env (fname d k) = WriteRaised" by (simp add: completes_def)
    with s Some show ?thesis by (auto intro: raise)
  qed
qed

lemma upto_split_at:
  "[s..e] = xs @ k # ys \<Longrightarrow> xs = [s..k - 1] \<and> ys = [k + 1..e] \<and> s \<le> k \<and> k \<le> e"
proof -
  assume eq: "[s..e] = xs @ k # ys"
  then have "k \<in> set [s..e]" by simp
  then have k: "s \<le> k" "k \<le> e" by simp_all
  then have sp: "[s..e] = [s..k - 1] @ k # [k + 1..e]" by (rule upto_split3)
  have "distinct (xs @ k # ys)" using eq distinct_upto [of s e] by simp
  then have "k \<notin> set xs" "k \<notin> set ys" by auto
  with eq sp have "xs = [s..k - 1] \<and> ys = [k + 1..e]"
    by (metis append_Cons_eq_iff)
  with k show ?thesis by simp
qed

subsection \<open>Set-up, range and the whole run\<close>

lemma ancestors_snoc: "ancestors p = butlast (ancestors p) @ [p]"
  by (simp add: ancestors_def)

lemma makedirs_ok_iff:
  "fst (makedirs p st) = Inr () \<longleftrightarrow> p \<noteq> [] \<and> (\<forall>a\<in>set (ancestors p). files st a = None)"
proof -
  have "set (ancestors p) = insert p (set (butlast (ancestors p)))"
    by (subst ancestors_snoc) simp
  then show ?thesis
    by (auto simp: makedirs_def Let_def split: if_splits)
qed

lemma makedirs_fail:
  "fst (makedirs p st) \<noteq> Inr () \<Longrightarrow> \<exists>e. makedirs p st = (Inl e, emit (MkDir p) st)"
  by (auto simp: makedirs_def Let_def split: if_splits)

lemma makedirs_ok:
  "fst (makedirs p st) = Inr () \<Longrightarrow>
   makedirs p st = (Inr (), st\<lparr>dirs := dirs st \<union> set (ancestors p), trace := trace st @ [MkDir p]\<rparr>)"
  by (auto simp: makedirs_def Let_def emit_def split: if_splits)

lemma oam_Inr:
  assumes "open_and_measure env url d st = (Inr (cap, dur), st1)"
  obtains info u n where
    "fst (makedirs d st) = Inr ()"
    "extract_info env url = Inr info" "info ''url'' = Some u"
    "cap = video_capture env u" "is_opened cap"
    "py_int (prop_frame_count cap) = Inr n"
    "true_div (float_round env) n (prop_fps cap) = Inr dur"
    "st1 = st\<lparr>dirs := dirs st \<union> set (ancestors d),
                trace := trace st @ [MkDir d, Resolve url, Open u]\<rparr>"
proof (cases "fst (makedirs d st) = Inr ()")
  case False
  from makedirs_fail [OF this] assms show ?thesis
    by (auto simp: open_and_measure_def)
next
  case True
  note mk = makedirs_ok [OF True]
  from assms show ?thesis
    unfolding open_and_measure_def mk
    by (auto simp: ydl_extract_def cap_open_def emit_def Let_def True
          split: sum.splits option.splits if_splits intro!: that)
qed

lemma oam_files: "files (snd (open_and_measure env url d st)) = files st"
  by (auto simp: open_and_measure_def makedirs_def ydl_extract_def cap_open_def emit_def Let_def
        split: sum.splits option.splits)

lemma oam_trace_head: "\<exists>evs. trace (snd (open_and_measure env url d st)) = trace st @ MkDir d # evs"
  by (auto simp: open_and_measure_def makedirs_def ydl_extract_def cap_open_def emit_def Let_def
        split: sum.splits option.splits)

lemma oam_no_loop_events:
  "set (trace (snd (open_and_measure env url d st))) \<subseteq>
     set (trace st) \<union> {MkDir d, Resolve url} \<union> range Open"
  by (auto simp: open_and_measure_def makedirs_def ydl_extract_def cap_open_def emit_def Let_def
        split: sum.splits option.splits)

lemma oam_dirs:
  "fst (makedirs d st) = Inr () \<Longrightarrow>
   dirs (snd (open_and_measure env url d st)) = dirs st \<union> set (ancestors d)"
  by (simp add: open_and_measure_def makedirs_ok ydl_extract_def cap_open_def emit_def Let_def
        split: sum.splits option.splits)

lemma oam_cases:
  obtains (fail) e st1 where "open_and_measure env url d st = (Inl e, st1)"
  | (ok) cap dur st1 where "open_and_measure env url d st = (Inr (cap, dur), st1)"
  by (cases "open_and_measure env url d st") (auto elim: sumE)

lemma normalize_Inr:
  "normalize_range start_sec end_sec dur = Inr (s, e) \<Longrightarrow>
   s = max 0 start_sec \<and> effective_end end_sec dur = Inr e \<and> s \<le> e"
  by (auto simp: normalize_range_def Let_def split: sum.splits if_splits)

lemma loop_no_release:
  "Release \<notin> set (trace st) \<Longrightarrow> Release \<notin> set (trace (snd (frame_loop env cap d ks st)))"
  by (induction ks arbitrary: st)
     (auto simp: step_defs split: write_outcome.splits option.splits)

lemma run_setup_fail:
  "open_and_measure env url d (init fs) = (Inl x, st) \<Longrightarrow>
   capture_every_second env fs url d a b = (Inl x, st)"
  by (simp add: capture_every_second_def)

lemma run_range_fail:
  "open_and_measure env url d (init fs) = (Inr (cap, dur), st) \<Longrightarrow>
   normalize_range a b dur = Inl x \<Longrightarrow>
   capture_every_second env fs url d a b = (Inl x, st)"
  by (simp add: capture_every_second_def)

lemma run_looped:
  "open_and_measure env url d (init fs) = (Inr (cap, dur), st) \<Longrightarrow>
   normalize_range a b dur = Inr (s, e) \<Longrightarrow>
   capture_every_second env fs url d a b =
     (case fst (frame_loop env cap d [s..e] st) of
        Inl x \<Rightarrow> (Inl x, snd (frame_loop env cap d [s..e] st))
      | Inr _ \<Rightarrow> (Inr (), cap_release (snd (frame_loop env cap d [s..e] st))))"
  by (simp add: capture_every_second_def split: prod.splits sum.splits)

lemma run_cases:
  obtains
    (setup_fail) x st where "open_and_measure env url d (init fs) = (Inl x, st)"
  | (range_fail) cap dur st x where "open_and_measure env url d (init fs) = (Inr (cap, dur), st)"
      "normalize_range a b dur = Inl x"
  | (looped) cap dur st s e where "open_and_measure env url d (init fs) = (Inr (cap, dur), st)"
      "normalize_range a b dur = Inr (s, e)"
proof (cases "open_and_measure env url d (init fs)")
  case (Pair r st)
  show ?thesis
  proof (cases r)
    case (Inl x)
    with Pair show ?thesis by (auto intro: setup_fail)
  next
    case (Inr cd)
    obtain cap dur where cd: "cd = (cap, dur)" by (cases cd)
    show ?thesis
    proof (cases "normalize_range a b dur")
      case (Inl x)
      with Pair Inr cd show ?thesis by (auto intro: range_fail)
    next
      case (Inr se)
      obtain s e where "se = (s, e)" by (cases se)
      with Pair \<open>r = Inr cd\<close> cd Inr show ?thesis by (auto intro: looped)
    qed
  qed
qed

lemma iter_range: "set [s..t - 1] = {s..<t}"
  by auto

lemma loop_range_complete:
  assumes "\<forall>k\<in>{s..e}. completes env cap d k"
  shows "fst (frame_loop env cap d [s..e] st) = Inr ()"
    and "trace (snd (frame_loop env cap d [s..e] st)) = trace st @ concat (map (iter_events d) [s..e])"
  using loop_all [of "[s..e]" env cap d st] assms by simp_all

lemma loop_range_stop:
  assumes "s \<le> t" "t \<le> e" "\<forall>k\<in>{s..<t}. completes env cap d k"
    "decode_at cap (t * 1000) = None"
  shows "fst (frame_loop env cap d [s..e] st) = Inr ()"
    and "trace (snd (frame_loop env cap d [s..e] st)) =
      trace st @ concat (map (iter_events d) [s..t - 1]) @ [Seek (t * 1000), Read]"
    and "files (snd (frame_loop env cap d [s..e] st)) =
      files (snd (frame_loop env cap d [s..t - 1] st))"
proof -
  have sp: "[s..e] = [s..t - 1] @ t # [t + 1..e]"
    using assms(1,2) by (rule upto_split3)
  have c: "\<forall>k\<in>set [s..t - 1]. completes env cap d k"
    using assms(3) by simp
  have eq: "frame_loop env cap d [s..e] st =
      (Inr (), emit Read (cap_set (t * 1000) (snd (frame_loop env cap d [s..t - 1] st))))"
    unfolding sp loop_append [OF c] by (rule loop_head_stop [OF assms(4)])
  show "fst (frame_loop env cap d [s..e] st) = Inr ()"
    by (simp add: eq)
  show "trace (snd (frame_loop env cap d [s..e] st)) =
      trace st @ concat (map (iter_events d) [s..t - 1]) @ [Seek (t * 1000), Read]"
    using loop_all [OF c, of st] by (simp add: eq emit_def cap_set_def)
  show "files (snd (frame_loop env cap d [s..e] st)) =
      files (snd (frame_loop env cap d [s..t - 1] st))"
    by (simp add: eq emit_def cap_set_def)
qed

lemma loop_range_raise:
  assumes "s \<le> t" "t \<le> e" "\<forall>k\<in>{s..<t}. completes env cap d k"
    "decode_at cap (t * 1000) = Some fr" "imwrite_outcome env (fname d t) = WriteRaised"
  shows "fst (frame_loop env cap d [s..e] st) = Inl CvError"
    and "trace (snd (frame_loop env cap d [s..e] st)) =
      trace st @ concat (map (iter_events d) [s..t])"
    and "files (snd (frame_loop env cap d [s..e] st)) =
      files (snd (frame_loop env cap d [s..t - 1] st))"
proof -
  have sp: "[s..e] = [s..t - 1] @ t # [t + 1..e]"
    using assms(1,2) by (rule upto_split3)
  have c: "\<forall>k\<in>set [s..t - 1]. completes env cap d k"
    using assms(3) by simp
  have eq: "frame_loop env cap d [s..e] st =
      (Inl CvError, emit (Write (fname d t))
         (emit Read (cap_set (t * 1000) (snd (frame_loop env cap d [s..t - 1] st)))))"
    unfolding sp loop_append [OF c] by (rule loop_head_raise [OF assms(4,5)])
  have st: "[s..t] = [s..t - 1] @ [t]"
    using assms(1) by (simp add: upto_rec2)
  show "fst (frame_loop env cap d [s..e] st) = Inl CvError"
    by (simp add: eq)
  show "trace (snd (frame_loop env cap d [s..e] st)) =
      trace st @ concat (map (iter_events d) [s..t])"
    using loop_all [OF c, of st] by (simp add: eq st emit_def cap_set_def iter_events_def)
  show "files (snd (frame_loop env cap d [s..e] st)) =
      files (snd (frame_loop env cap d [s..t - 1] st))"
    by (simp add: eq emit_def cap_set_def)
qed

lemma loop_range_cases:
  obtains
    (complete) "\<forall>k\<in>{s..e}. completes env cap d k"
  | (stop) t where "s \<le> t" "t \<le> e" "\<forall>k\<in>{s..<t}. completes env cap d k"
      "decode_at cap (t * 1000) = None"
  | (raise) t fr where "s \<le> t" "t \<le> e" "\<forall>k\<in>{s..<t}. completes env cap d k"
      "decode_at cap (t * 1000) = Some fr" "imwrite_outcome env (fname d t) = WriteRaised"
proof (cases rule: loop_cases [of "[s..e]" env cap d])
  case complete
  then show ?thesis using that(1) by simp
next
  case (stop pre k rest)
  from upto_split_at [OF stop(1)] stop(2,3) show ?thesis
    using that(2) [of k] by auto
next
  case (raise pre k rest fr)
  from upto_split_at [OF raise(1)] raise(2,3,4) show ?thesis
    using that(3) [of k fr] by auto
qed

lemma oam_zero_fps:
  assumes "fst (makedirs d st) = Inr ()"
    and "extract_info env url = Inr info" and "info ''url'' = Some u"
    and "is_opened (video_capture env u)"
    and "prop_fps (video_capture env u) = Finite 0"
  shows "open_and_measure env url d st =
    (case py_int (prop_frame_count (video_capture env u)) of
       Inl x \<Rightarrow> Inl x | Inr n \<Rightarrow> Inl ZeroDivisionError,
     st\<lparr>dirs := dirs st \<union> set (ancestors d), trace := trace st @ [MkDir d, Resolve url, Open u]\<rparr>)"
  unfolding open_and_measure_def makedirs_ok [OF assms(1)]
  using assms(2-5)
  by (simp add: ydl_extract_def cap_open_def emit_def Let_def true_div_def split: sum.splits)

lemma normalize_start_nonneg: "normalize_range a b dur = Inr (s, e) \<Longrightarrow> 0 \<le> s"
  by (auto dest: normalize_Inr)

lemma fname_inj_on: "0 \<le> s \<Longrightarrow> inj_on (fname d) {s..}"
proof (rule inj_onI)
  fix x y
  assume "0 \<le> s" "x \<in> {s..}" "y \<in> {s..}" "fname d x = fname d y"
  then show "x = y" by (intro fname_inj [of x y d]) auto
qed

lemma int_gt_floor: "int_gt e (Finite q) \<longleftrightarrow> \<lfloor>q\<rfloor> < e"
  by (simp add: int_gt_def floor_less_iff)

lemma loop_trace_grows:
  "\<exists>X. trace (snd (frame_loop env cap d ks st)) = trace st @ X"
  using loop_uniform [of env cap d ks] by blast

lemma loop_first_seek:
  "\<exists>rest. trace (snd (frame_loop env cap d (k # ks) st)) = trace st @ Seek (k * 1000) # rest"
proof (cases "decode_at cap (k * 1000)")
  case None
  then show ?thesis
    by (simp add: loop_head_stop [OF None] emit_def cap_set_def del: frame_loop.simps)
next
  case (Some fr)
  show ?thesis
  proof (cases "imwrite_outcome env (fname d k) = WriteRaised")
    case True
    with Some show ?thesis
      by (simp add: loop_head_raise [OF Some True] emit_def cap_set_def del: frame_loop.simps)
  next
    case False
    from loop_trace_grows obtain X where
      "trace (snd (frame_loop env cap d ks
          (snd (imwrite env (fname d k) fr (emit Read (cap_set (k * 1000) st)))))) =
       trace (snd (imwrite env (fname d k) fr (emit Read (cap_set (k * 1000) st)))) @ X"
      by blast
    then show ?thesis
      unfolding loop_step [OF Some False]
      by (simp add: imwrite_def emit_def cap_set_def Let_def split: write_outcome.splits)
  qed
qed

lemma run_first_seek:
  assumes "open_and_measure env url d (init fs) = (Inr (cap, dur), st)"
    and "normalize_range a b dur = Inr (s, e)"
  shows "\<exists>rest. trace (snd (capture_every_second env fs url d a b)) = trace st @ Seek (s * 1000) # rest"
proof -
  from assms(2) have "s \<le> e" by (auto dest: normalize_Inr)
  then have "[s..e] = s # [s + 1..e]" by (rule upto_rec1)
  with loop_first_seek [of env cap d s "[s + 1..e]" st]
  obtain rest where "trace (snd (frame_loop env cap d [s..e] st)) = trace st @ Seek (s * 1000) # rest"
    by auto
  then show ?thesis
    unfolding run_looped [OF assms]
    by (simp add: cap_release_def emit_def split: sum.splits)
qed

lemma distinct_fnames: "0 \<le> s \<Longrightarrow> distinct (map (fname d) [s..t])"
  by (simp add: distinct_map inj_on_subset [OF fname_inj_on [of s d]])

lemma fs_of_init_emit: "fs_of (emit ev (init fs)) = fs"
  by (simp add: fs_of_def emit_def init_def)

lemma run_trace_head:
  "\<exists>rest. trace (snd (capture_every_second env fs url d a b)) = MkDir d # rest"
proof -
  obtain evs where h: "trace (snd (open_and_measure env url d (init fs))) = MkDir d # evs"
    using oam_trace_head [of env url d "init fs"] by (auto simp: init_def)
  show ?thesis
  proof (cases rule: run_cases [where env = env and url = url and d = d and fs = fs
        and a = a and b = b])
    case (setup_fail x st)
    with h show ?thesis by (simp add: run_setup_fail [OF setup_fail])
  next
    case (range_fail cap dur st x)
    with h show ?thesis by (simp add: run_range_fail [OF range_fail])
  next
    case (looped cap dur st s e)
    obtain X where "trace (snd (frame_loop env cap d [s..e] st)) = trace st @ X"
      using loop_trace_grows by blast
    with h looped(1) show ?thesis
      unfolding run_looped [OF looped]
      by (simp add: cap_release_def emit_def split: sum.splits)
  qed
qed

lemma run_dirs:
  "dirs (snd (capture_every_second env fs url d a b)) =
    dirs (snd (open_and_measure env url d (init fs)))"
proof (cases rule: run_cases [where env = env and url = url and d = d and fs = fs
      and a = a and b = b])
  case (setup_fail x st)
  then show ?thesis by (simp add: run_setup_fail [OF setup_fail])
next
  case (range_fail cap dur st x)
  then show ?thesis by (simp add: run_range_fail [OF range_fail])
next
  case (looped cap dur st s e)
  then show ?thesis
    unfolding run_looped [OF looped]
    by (simp add: cap_release_def emit_def loop_dirs split: sum.splits)
qed

lemma fs_of_eq_iff: "fs_of st = fs_of st' \<longleftrightarrow> dirs st = dirs st' \<and> files st = files st'"
  by (simp add: fs_of_def)

lemma init_fs_of: "dirs (init fs) = dirs fs" "files (init fs) = files fs"
  "trace (init fs) = []" "dirs (fs_of st) = dirs st" "files (fs_of st) = files st"
  by (simp_all add: init_def fs_of_def)

lemma oam_two:
  assumes "fst (makedirs d st) = Inr ()" "fst (makedirs d st') = Inr ()"
  shows "fst (open_and_measure env url d st) = fst (open_and_measure env url d st')"
    and "\<exists>X. trace (snd (open_and_measure env url d st)) = trace st @ X
          \<and> trace (snd (open_and_measure env url d st')) = trace st' @ X"
  unfolding open_and_measure_def makedirs_ok [OF assms(1)] makedirs_ok [OF assms(2)]
  by (auto simp: ydl_extract_def cap_open_def emit_def Let_def split: sum.splits option.splits)

lemma run_files_frame:
  "f \<notin> range (fname d) \<Longrightarrow> files (snd (capture_every_second env fs url d a b)) f = files fs f"
  supply init_fs_of [simp]
proof (cases rule: run_cases [where env = env and url = url and d = d and fs = fs
      and a = a and b = b])
  case (setup_fail x st)
  with oam_files [of env url d "init fs"] show ?thesis
    by (simp add: run_setup_fail [OF setup_fail])
next
  case (range_fail cap dur st x)
  with oam_files [of env url d "init fs"] show ?thesis
    by (simp add: run_range_fail [OF range_fail])
next
  case (looped cap dur st s e)
  assume "f \<notin> range (fname d)"
  then have "f \<notin> fname d ` set [s..e]" by auto
  from loop_files_frame [OF this, of env cap st] oam_files [of env url d "init fs"] looped(1)
  show ?thesis
    unfolding run_looped [OF looped]
    by (simp add: cap_release_def emit_def split: sum.splits)
qed

lemma run_two:
  assumes "fst (makedirs d (init fs)) = Inr ()" "fst (makedirs d (init fs')) = Inr ()"
  shows "fst (capture_every_second env fs url d a b) = fst (capture_every_second env fs' url d a b)
    \<and> trace (snd (capture_every_second env fs url d a b))
        = trace (snd (capture_every_second env fs' url d a b))
    \<and> (\<exists>D. files (snd (capture_every_second env fs url d a b)) = files fs ++ D
          \<and> files (snd (capture_every_second env fs' url d a b)) = files fs' ++ D)"
  supply init_fs_of [simp]
proof -
  note two = oam_two [OF assms, of env url]
  from two(2) have tr: "trace (snd (open_and_measure env url d (init fs)))
      = trace (snd (open_and_measure env url d (init fs')))"
    by auto
  obtain r' st' where o': "open_and_measure env url d (init fs') = (r', st')"
    by (cases "open_and_measure env url d (init fs')")
  have fl: "files st' = files fs'"
    using oam_files [of env url d "init fs'"] o' by simp
  show ?thesis
  proof (cases rule: run_cases [where env = env and url = url and d = d and fs = fs
        and a = a and b = b])
    case (setup_fail x st)
    with two(1) o' have o2: "open_and_measure env url d (init fs') = (Inl x, st')"
      by simp
    have "files st = files fs"
      using oam_files [of env url d "init fs"] setup_fail by simp
    moreover have "\<exists>D. files fs = files fs ++ D \<and> files fs' = files fs' ++ D"
      by (rule exI [of _ Map.empty]) simp
    ultimately show ?thesis
      using tr fl setup_fail o2
      by (simp add: run_setup_fail [OF setup_fail] run_setup_fail [OF o2])
  next
    case (range_fail cap dur st x)
    with two(1) o' have o2: "open_and_measure env url d (init fs') = (Inr (cap, dur), st')"
      by simp
    have "files st = files fs"
      using oam_files [of env url d "init fs"] range_fail by simp
    moreover have "\<exists>D. files fs = files fs ++ D \<and> files fs' = files fs' ++ D"
      by (rule exI [of _ Map.empty]) simp
    ultimately show ?thesis
      using tr fl range_fail o2
      by (simp add: run_range_fail [OF range_fail] run_range_fail [OF o2 range_fail(2)])
  next
    case (looped cap dur st s e)
    with two(1) o' have o2: "open_and_measure env url d (init fs') = (Inr (cap, dur), st')"
      by simp
    have f: "files st = files fs"
      using oam_files [of env url d "init fs"] looped by simp
    from tr looped(1) o2 have t: "trace st = trace st'" by simp
    from loop_uniform [of env cap d "[s..e]"] obtain r X D where
      u: "\<And>z. fst (frame_loop env cap d [s..e] z) = r \<and>
         trace (snd (frame_loop env cap d [s..e] z)) = trace z @ X \<and>
         files (snd (frame_loop env cap d [s..e] z)) = files z ++ D"
      by blast
    have "files (snd (capture_every_second env fs url d a b)) = files fs ++ D
          \<and> files (snd (capture_every_second env fs' url d a b)) = files fs' ++ D"
      unfolding run_looped [OF looped] run_looped [OF o2 looped(2)]
      by (simp add: u f fl cap_release_def emit_def split: sum.splits)
    then have "\<exists>D. files (snd (capture_every_second env fs url d a b)) = files fs ++ D
          \<and> files (snd (capture_every_second env fs' url d a b)) = files fs' ++ D"
      by blast
    moreover have "fst (capture_every_second env fs url d a b)
        = fst (capture_every_second env fs' url d a b)
      \<and> trace (snd (capture_every_second env fs url d a b))
        = trace (snd (capture_every_second env fs' url d a b))"
      unfolding run_looped [OF looped] run_looped [OF o2 looped(2)]
      by (simp add: u t cap_release_def emit_def split: sum.splits)
    ultimately show ?thesis by simp
  qed
qed

subsection \<open>Evaluation of concrete runs\<close>

lemmas run_defs =
  capture_every_second_def open_and_measure_def makedirs_def ydl_extract_def cap_open_def
  normalize_range_def effective_end_def py_int_def true_div_def int_gt_def
  cap_set_def cap_read_def cap_release_def imwrite_def emit_def init_def Let_def
  demo_stream_def demo_env_def empty_fs_def ancestors_def

lemmas name_defs =
  fname_def path_join_def frame_name_def fmt_04d_def zfill_def dec_digits.simps digit_char_def

lemmas upto_01 = upto.simps [of 0] upto.simps [of 1]

lemma setup_trace:
  assumes "open_and_measure env url d (init fs) = (Inr (cap, dur), st)"
  obtains u where "trace st = [MkDir d, Resolve url, Open u]" "files st = files fs"
    "dirs st = dirs fs \<union> set (ancestors d)"
  using assms by (elim oam_Inr) (simp add: init_def)

lemma frame_names_0_10:
  "fname ''out'' 0 = ''out/frame_0000.jpg''" "fname ''out'' 1 = ''out/frame_0001.jpg''"
  "fname ''out'' 2 = ''out/frame_0002.jpg''" "fname ''out'' 3 = ''out/frame_0003.jpg''"
  "fname ''out'' 4 = ''out/frame_0004.jpg''" "fname ''out'' 5 = ''out/frame_0005.jpg''"
  "fname ''out'' 6 = ''out/frame_0006.jpg''" "fname ''out'' 7 = ''out/frame_0007.jpg''"
  "fname ''out'' 8 = ''out/frame_0008.jpg''" "fname ''out'' 9 = ''out/frame_0009.jpg''"
  "fname ''out'' 10 = ''out/frame_0010.jpg''" "fname ''out'' 11 = ''out/frame_0011.jpg''"
  "fname ''out'' 12 = ''out/frame_0012.jpg''"
  by code_simp+

lemma demo_setup:
  "open_and_measure (demo_env (demo_stream (Finite fps) (Finite n) gaps) w) ''link'' ''out''
     (init empty_fs) =
   (case true_div Finite (if 0 \<le> n then \<lfloor>n\<rfloor> else \<lceil>n\<rceil>) (Finite fps) of
      Inl x \<Rightarrow> Inl x
    | Inr dur \<Rightarrow> Inr (demo_stream (Finite fps) (Finite n) gaps, dur),
    \<lparr>dirs = {''out''}, files = Map.empty, pos_msec = 0,
     trace = [MkDir ''out'', Resolve ''link'', Open ''stream'']\<rparr>)"
  by (simp add: open_and_measure_def makedirs_def ydl_extract_def cap_open_def py_int_def
        emit_def init_def Let_def demo_stream_def demo_env_def empty_fs_def ancestors_def
      split: sum.splits)

section \<open>The claims\<close>

subsection \<open>C1: release of the capture\<close>

text \<open>
  C1 (as amended). Every run that returns without an exception, by running the loop to its
  end or by leaving it at a second with no frame, calls \<open>cap.release()\<close> exactly once,
  as its last action. The claim as written also covers the exits by a raised error;
  there line 100 is never reached (see the counterexample below).
\<close>

theorem release_once_on_return:
  assumes "fst (capture_every_second env fs url d start_sec end_sec) = Inr ()"
  shows "count_list (trace (snd (capture_every_second env fs url d start_sec end_sec))) Release = 1
    \<and> last (trace (snd (capture_every_second env fs url d start_sec end_sec))) = Release"
proof (cases rule: run_cases [where env = env and url = url and d = d and fs = fs and a = start_sec and b = end_sec])
  case (setup_fail x st)
  from run_setup_fail [OF this] assms show ?thesis by simp
next
  case (range_fail cap dur st x)
  from run_range_fail [OF this] assms show ?thesis by simp
next
  case (looped cap dur st s e)
  note run = run_looped [OF looped]
  let ?l = "frame_loop env cap d [s..e] st"
  from assms have ok: "snd (capture_every_second env fs url d start_sec end_sec) = cap_release (snd ?l)"
    unfolding run by (simp split: sum.splits)
  from looped(1) obtain u where "trace st = [MkDir d, Resolve url, Open u]"
    by (rule setup_trace)
  then have "Release \<notin> set (trace st)" by simp
  then have "Release \<notin> set (trace (snd ?l))" by (rule loop_no_release)
  then have "count_list (trace (snd ?l)) Release = 0" by simp
  then show ?thesis
    unfolding ok by (simp add: cap_release_def emit_def)
qed

text \<open>Scenario A (seconds 10 to 12 of a 20-second stream) and scenario D (no frame at
  second 7 of the range 0 to 10) both return and release once.\<close>

theorem release_once_on_return_witness:
  "fst (capture_every_second (demo_env (demo_stream (Finite 30) (Finite 600) []) (\<lambda>p. Written))
      empty_fs ''link'' ''out'' 10 (Some 12)) = Inr ()
   \<and> count_list (trace (snd (capture_every_second
      (demo_env (demo_stream (Finite 30) (Finite 600) []) (\<lambda>p. Written))
      empty_fs ''link'' ''out'' 10 (Some 12)))) Release = 1
   \<and> fst (capture_every_second (demo_env (demo_stream (Finite 30) (Finite 600) [7000]) (\<lambda>p. Written))
      empty_fs ''link'' ''out'' 0 (Some 10)) = Inr ()
   \<and> count_list (trace (snd (capture_every_second
      (demo_env (demo_stream (Finite 30) (Finite 600) [7000]) (\<lambda>p. Written))
      empty_fs ''link'' ''out'' 0 (Some 10)))) Release = 1"
proof -
  have a: "fst (capture_every_second (demo_env (demo_stream (Finite 30) (Finite 600) []) (\<lambda>p. Written))
      empty_fs ''link'' ''out'' 10 (Some 12)) = Inr ()"
    by (simp add: run_defs)
  have b: "fst (capture_every_second (demo_env (demo_stream (Finite 30) (Finite 600) [7000]) (\<lambda>p. Written))
      empty_fs ''link'' ''out'' 0 (Some 10)) = Inr ()"
    by (simp add: run_defs upto_01)
  from release_once_on_return [OF a] release_once_on_return [OF b] a b show ?thesis
    by blast
qed

text \<open>Scenario C: the request with start 8 and end 3 opens the stream, raises at line 81
  and never releases it.\<close>

theorem release_skipped_on_range_error:
  "fst (capture_every_second (demo_env (demo_stream (Finite 30) (Finite 600) []) (\<lambda>p. Written))
      empty_fs ''link'' ''out'' 8 (Some 3)) = Inl ValueError
   \<and> trace (snd (capture_every_second (demo_env (demo_stream (Finite 30) (Finite 600) []) (\<lambda>p. Written))
      empty_fs ''link'' ''out'' 8 (Some 3))) = [MkDir ''out'', Resolve ''link'', Open ''stream'']
   \<and> count_list (trace (snd (capture_every_second
      (demo_env (demo_stream (Finite 30) (Finite 600) []) (\<lambda>p. Written))
      empty_fs ''link'' ''out'' 8 (Some 3)))) Release \<noteq> 1"
  by (simp add: run_defs)

subsection \<open>C2: a frame rate of zero\<close>

text \<open>
  C2 (as amended). When the opened stream reports a frame rate of zero, the run fails, but
  not by a guard: no line checks the rate. When the reported frame count is a number that
  \<open>int()\<close> accepts, the division \<open>frame_count / fps\<close> of line 69 is evaluated and itself
  raises \<open>ZeroDivisionError\<close> (it does so for every frame count); when the frame count is
  \<open>nan\<close> or infinite, \<open>int()\<close> on line 67 has already raised \<open>ValueError\<close> or
  \<open>OverflowError\<close>. In each case nothing has been written, and the stream that was opened
  is not released. (The hypotheses say that the run gets as far as line 65.)
\<close>

theorem zero_rate_raises_in_division:
  assumes "fst (makedirs output_dir (init fs)) = Inr ()"
    and "extract_info env url = Inr info" and "info ''url'' = Some stream_url"
    and "is_opened (video_capture env stream_url)"
    and "prop_fps (video_capture env stream_url) = Finite 0"
  shows "(\<forall>frame_count.
        true_div (float_round env) frame_count (prop_fps (video_capture env stream_url))
          = Inl ZeroDivisionError)
    \<and> fst (capture_every_second env fs url output_dir start_sec end_sec) =
        (case prop_frame_count (video_capture env stream_url) of
           Finite q \<Rightarrow> Inl ZeroDivisionError
         | PosInf \<Rightarrow> Inl OverflowError
         | NegInf \<Rightarrow> Inl OverflowError
         | NaN \<Rightarrow> Inl ValueError)
    \<and> trace (snd (capture_every_second env fs url output_dir start_sec end_sec))
      = [MkDir output_dir, Resolve url, Open stream_url]
    \<and> files (snd (capture_every_second env fs url output_dir start_sec end_sec)) = files fs"
proof -
  note oam = oam_zero_fps [OF assms]
  have "capture_every_second env fs url output_dir start_sec end_sec =
    (case py_int (prop_frame_count (video_capture env stream_url)) of
       Inl x \<Rightarrow> Inl x | Inr n \<Rightarrow> Inl ZeroDivisionError,
     (init fs)\<lparr>dirs := dirs (init fs) \<union> set (ancestors output_dir),
       trace := trace (init fs) @ [MkDir output_dir, Resolve url, Open stream_url]\<rparr>)"
  proof (cases "py_int (prop_frame_count (video_capture env stream_url))")
    case (Inl x)
    with oam show ?thesis by (simp add: run_setup_fail)
  next
    case (Inr n)
    with oam show ?thesis by (simp add: run_setup_fail)
  qed
  then show ?thesis
    using assms(5) by (simp add: init_def true_div_def py_int_def split: pyfloat.splits)
qed

text \<open>A stream that reports the rate 0: with 150 frames the division raises, with a frame
  count of \<open>nan\<close> the conversion before it does.\<close>

theorem zero_rate_raises_in_division_witness:
  "fst (capture_every_second (demo_env (demo_stream (Finite 0) (Finite 150) []) (\<lambda>p. Written))
      empty_fs ''link'' ''out'' 0 None) = Inl ZeroDivisionError
   \<and> trace (snd (capture_every_second (demo_env (demo_stream (Finite 0) (Finite 150) []) (\<lambda>p. Written))
      empty_fs ''link'' ''out'' 0 None)) = [MkDir ''out'', Resolve ''link'', Open ''stream'']
   \<and> fst (capture_every_second (demo_env (demo_stream (Finite 0) NaN []) (\<lambda>p. Written))
      empty_fs ''link'' ''out'' 0 None) = Inl ValueError"
proof -
  have 1: "fst (makedirs ''out'' (init empty_fs)) = Inr ()"
    by (simp add: makedirs_def init_def empty_fs_def emit_def ancestors_def Let_def)
  have 2: "extract_info (demo_env (demo_stream (Finite 0) c []) (\<lambda>p. Written)) ''link''
      = Inr [''url'' \<mapsto> ''stream'']" for c
    by (simp add: demo_env_def)
  have 3: "[''url'' \<mapsto> ''stream''] ''url'' = Some ''stream''"
    by simp
  have 4: "is_opened (video_capture (demo_env (demo_stream (Finite 0) c []) (\<lambda>p. Written))
      ''stream'')" for c
    by (simp add: demo_env_def demo_stream_def)
  have 5: "prop_fps (video_capture (demo_env (demo_stream (Finite 0) c []) (\<lambda>p. Written))
      ''stream'') = Finite 0" for c
    by (simp add: demo_env_def demo_stream_def)
  have 6: "prop_frame_count (video_capture (demo_env (demo_stream (Finite 0) c []) (\<lambda>p. Written))
      ''stream'') = c" for c
    by (simp add: demo_env_def demo_stream_def)
  from zero_rate_raises_in_division [OF 1 2 3 4 5, of "Finite 150" 0 None]
    zero_rate_raises_in_division [OF 1 2 3 4 5, of NaN 0 None]
  show ?thesis
    by (simp add: 6)
qed

text \<open>The claim asks for an error raised instead of the division. On the same stream the
  division is what raises, and the run ends in the state it had after opening.\<close>

theorem zero_rate_is_not_guarded:
  "true_div Finite 150 (Finite 0) = Inl ZeroDivisionError
   \<and> capture_every_second (demo_env (demo_stream (Finite 0) (Finite 150) []) (\<lambda>p. Written))
      empty_fs ''link'' ''out'' 0 None
     = (Inl ZeroDivisionError,
        \<lparr>dirs = {''out''}, files = Map.empty, pos_msec = 0,
         trace = [MkDir ''out'', Resolve ''link'', Open ''stream'']\<rparr>)"
  by (simp add: run_defs)

subsection \<open>C3: an inverted range\<close>

text \<open>
  C3. A request whose normalised start second \<open>max 0 start_sec\<close> exceeds its normalised
  end second aborts with the \<open>ValueError\<close> of line 81 (the specification's RangeError)
  and writes nothing: no call of \<open>cv2.imwrite\<close> is made and the files are those of
  before. (The first hypothesis says that the run gets as far as the range check.)
\<close>

theorem inverted_range_raises:
  assumes "open_and_measure env url output_dir (init fs) = (Inr (cap, duration), st)"
    and "effective_end end_sec duration = Inr e"
    and "e < max 0 start_sec"
  shows "fst (capture_every_second env fs url output_dir start_sec end_sec) = Inl ValueError
    \<and> files (snd (capture_every_second env fs url output_dir start_sec end_sec)) = files fs
    \<and> (\<forall>p. Write p \<notin> set (trace (snd (capture_every_second env fs url output_dir start_sec end_sec))))"
proof -
  have "normalize_range start_sec end_sec duration = Inl ValueError"
    using assms(2,3) by (simp add: normalize_range_def Let_def)
  from run_range_fail [OF assms(1) this]
  have run: "capture_every_second env fs url output_dir start_sec end_sec = (Inl ValueError, st)" .
  from assms(1) obtain u where "trace st = [MkDir output_dir, Resolve url, Open u]"
    "files st = files fs"
    by (rule setup_trace)
  then show ?thesis
    unfolding run by simp
qed

text \<open>Scenario C: start 8 and end 3 on a 20-second stream.\<close>

theorem inverted_range_raises_witness:
  "effective_end (Some 3) (Finite 20) = Inr 3 \<and> (3::int) < max 0 8
   \<and> fst (capture_every_second (demo_env (demo_stream (Finite 30) (Finite 600) []) (\<lambda>p. Written))
      empty_fs ''link'' ''out'' 8 (Some 3)) = Inl ValueError
   \<and> files (snd (capture_every_second (demo_env (demo_stream (Finite 30) (Finite 600) []) (\<lambda>p. Written))
      empty_fs ''link'' ''out'' 8 (Some 3))) = Map.empty"
proof -
  let ?cap = "demo_stream (Finite 30) (Finite 600) []"
  let ?env = "demo_env ?cap (\<lambda>p. Written)"
  have 1: "open_and_measure ?env ''link'' ''out'' (init empty_fs) =
    (Inr (?cap, Finite 20), snd (open_and_measure ?env ''link'' ''out'' (init empty_fs)))"
    by (simp add: run_defs)
  have 2: "effective_end (Some 3) (Finite 20) = Inr 3"
    by (simp add: effective_end_def int_gt_def)
  have 3: "(3::int) < max 0 8"
    by simp
  from inverted_range_raises [OF 1 2 3] 2 3 show ?thesis
    by (simp add: empty_fs_def)
qed

subsection \<open>C4: a second with no frame\<close>

text \<open>
  C4. When the loop reaches a second \<open>t\<close> of the requested range at which the decoder
  yields no frame (the seconds before \<open>t\<close> decoded and their writes did not raise), the
  run leaves the loop without an error and returns normally. The calls made are those of
  the seconds before \<open>t\<close> in order, then the seek and the failed read of \<open>t\<close>, then
  the release. Every file written for a second before \<open>t\<close> is there with its frame at
  the end, and the file of \<open>t\<close> and of every later second is as it was before the run.
\<close>

theorem decode_gap_stops_early:
  assumes "open_and_measure env url output_dir (init fs) = (Inr (cap, duration), st)"
    and "normalize_range start_sec end_sec duration = Inr (s, e)"
    and "s \<le> t" and "t \<le> e"
    and "decode_at cap (t * 1000) = None"
    and "\<forall>k\<in>{s..<t}. decode_at cap (k * 1000) \<noteq> None
           \<and> imwrite_outcome env (fname output_dir k) \<noteq> WriteRaised"
  shows "fst (capture_every_second env fs url output_dir start_sec end_sec) = Inr ()
    \<and> trace (snd (capture_every_second env fs url output_dir start_sec end_sec)) =
        trace st @ concat (map (\<lambda>k. [Seek (k * 1000), Read, Write (fname output_dir k)]) [s..t - 1])
          @ [Seek (t * 1000), Read, Release]
    \<and> (\<forall>k\<in>{s..<t}. imwrite_outcome env (fname output_dir k) = Written \<longrightarrow>
          files (snd (capture_every_second env fs url output_dir start_sec end_sec)) (fname output_dir k)
            = decode_at cap (k * 1000))
    \<and> (\<forall>k. t \<le> k \<longrightarrow>
          files (snd (capture_every_second env fs url output_dir start_sec end_sec)) (fname output_dir k)
            = files fs (fname output_dir k))"
proof -
  let ?run = "capture_every_second env fs url output_dir start_sec end_sec"
  let ?l = "frame_loop env cap output_dir [s..e] st"
  let ?p = "frame_loop env cap output_dir [s..t - 1] st"
  have c: "\<forall>k\<in>{s..<t}. completes env cap output_dir k"
    using assms(6) by (simp add: completes_def)
  note stop = loop_range_stop [OF assms(3,4) c assms(5), of st]
  have run: "?run = (Inr (), cap_release (snd ?l))"
    unfolding run_looped [OF assms(1,2)] using stop(1) by simp
  have s0: "0 \<le> s" using assms(2) by (rule normalize_start_nonneg)
  from assms(1) have st: "files st = files fs"
    by (rule setup_trace)
  have fl: "files (snd ?run) = files (snd ?p)"
    unfolding run using stop(3) by (simp add: cap_release_def emit_def)
  have 1: "fst ?run = Inr ()" by (simp add: run)
  have 2: "trace (snd ?run) =
        trace st @ concat (map (\<lambda>k. [Seek (k * 1000), Read, Write (fname output_dir k)]) [s..t - 1])
          @ [Seek (t * 1000), Read, Release]"
    unfolding run using stop(2) by (simp add: cap_release_def emit_def iter_events_def [abs_def])
  have 3: "files (snd ?run) (fname output_dir k) = decode_at cap (k * 1000)"
    if "k \<in> {s..<t}" "imwrite_outcome env (fname output_dir k) = Written" for k
  proof -
    have "\<forall>j\<in>set [s..t - 1]. completes env cap output_dir j \<and> 0 \<le> j"
      using c s0 by auto
    moreover have "k \<in> set [s..t - 1]" using that(1) by simp
    ultimately show ?thesis
      unfolding fl using that(2) by (intro loop_files_written) simp_all
  qed
  have 4: "files (snd ?run) (fname output_dir k) = files fs (fname output_dir k)" if "t \<le> k" for k
  proof -
    have "fname output_dir k \<notin> fname output_dir ` set [s..t - 1]"
    proof
      assume "fname output_dir k \<in> fname output_dir ` set [s..t - 1]"
      then obtain j where j: "j \<in> set [s..t - 1]" "fname output_dir k = fname output_dir j"
        by auto
      with s0 that assms(3) have "k = j" by (intro fname_inj [of k j output_dir]) auto
      with j(1) that show False by simp
    qed
    then show ?thesis
      unfolding fl by (simp add: loop_files_frame st)
  qed
  from 1 2 3 4 show ?thesis by blast
qed

text \<open>Scenario D: no frame at second 7 of the requested range 0 to 10 leaves
  \<open>frame_0000.jpg\<close> to \<open>frame_0006.jpg\<close> and nothing for the seconds 7 to 10.\<close>

theorem decode_gap_stops_early_witness:
  "fst (capture_every_second (demo_env (demo_stream (Finite 30) (Finite 600) [7000]) (\<lambda>p. Written))
      empty_fs ''link'' ''out'' 0 (Some 10)) = Inr ()
   \<and> trace (snd (capture_every_second
      (demo_env (demo_stream (Finite 30) (Finite 600) [7000]) (\<lambda>p. Written))
      empty_fs ''link'' ''out'' 0 (Some 10))) =
     [MkDir ''out'', Resolve ''link'', Open ''stream'',
      Seek 0, Read, Write ''out/frame_0000.jpg'', Seek 1000, Read, Write ''out/frame_0001.jpg'',
      Seek 2000, Read, Write ''out/frame_0002.jpg'', Seek 3000, Read, Write ''out/frame_0003.jpg'',
      Seek 4000, Read, Write ''out/frame_0004.jpg'', Seek 5000, Read, Write ''out/frame_0005.jpg'',
      Seek 6000, Read, Write ''out/frame_0006.jpg'', Seek 7000, Read, Release]
   \<and> files (snd (capture_every_second
      (demo_env (demo_stream (Finite 30) (Finite 600) [7000]) (\<lambda>p. Written))
      empty_fs ''link'' ''out'' 0 (Some 10))) ''out/frame_0006.jpg'' = Some (Frame 6000)
   \<and> files (snd (capture_every_second
      (demo_env (demo_stream (Finite 30) (Finite 600) [7000]) (\<lambda>p. Written))
      empty_fs ''link'' ''out'' 0 (Some 10))) ''out/frame_0007.jpg'' = None
   \<and> files (snd (capture_every_second
      (demo_env (demo_stream (Finite 30) (Finite 600) [7000]) (\<lambda>p. Written))
      empty_fs ''link'' ''out'' 0 (Some 10))) ''out/frame_0010.jpg'' = None"
proof -
  let ?cap = "demo_stream (Finite 30) (Finite 600) [7000]"
  let ?env = "demo_env ?cap (\<lambda>p. Written)"
  have 1: "open_and_measure ?env ''link'' ''out'' (init empty_fs) =
    (Inr (?cap, Finite 20), \<lparr>dirs = {''out''}, files = Map.empty, pos_msec = 0,
       trace = [MkDir ''out'', Resolve ''link'', Open ''stream'']\<rparr>)"
    by (simp add: demo_setup true_div_def)
  have 2: "normalize_range 0 (Some 10) (Finite 20) = Inr (0, 10)"
    by (simp add: normalize_range_def effective_end_def int_gt_def)
  have 3: "(0::int) \<le> 7" "(7::int) \<le> 10"
    by simp_all
  have 4: "decode_at ?cap (7 * 1000) = None"
    by (simp add: demo_stream_def)
  have 5: "\<forall>k\<in>{0..<7}. decode_at ?cap (k * 1000) \<noteq> None
      \<and> imwrite_outcome ?env (fname ''out'' k) \<noteq> WriteRaised"
    by (simp add: demo_stream_def demo_env_def)
  have 6: "(6::int) \<in> {0..<7}" "imwrite_outcome ?env (fname ''out'' 6) = Written"
    by (simp_all add: demo_env_def)
  note main = decode_gap_stops_early [OF 1 2 3 4 5]
  from main 6 have "files (snd (capture_every_second ?env empty_fs ''link'' ''out'' 0 (Some 10)))
      (fname ''out'' 6) = decode_at ?cap (6 * 1000)"
    by blast
  moreover from main have "files (snd (capture_every_second ?env empty_fs ''link'' ''out'' 0 (Some 10)))
      (fname ''out'' 7) = files empty_fs (fname ''out'' 7)"
    "files (snd (capture_every_second ?env empty_fs ''link'' ''out'' 0 (Some 10)))
      (fname ''out'' 10) = files empty_fs (fname ''out'' 10)"
    by simp_all
  moreover have "[0..7 - 1] = [0, 1, 2, 3, 4, 5, 6::int]"
    by (simp add: upto_01)
  ultimately show ?thesis
    using main by (simp add: frame_names_0_10 demo_stream_def empty_fs_def)
qed

subsection \<open>C5: the default end of the range\<close>

text \<open>
  C5 (as amended). Lines 77 and 78 set the end to \<open>int(duration)\<close>, which truncates toward
  zero. For a finite duration that is not negative this is the floor: a request whose end
  second is unset or exceeds \<open>\<lfloor>duration\<rfloor>\<close> gets the effective end \<open>\<lfloor>duration\<rfloor>\<close>. When
  every second from the normalised start to there yields a frame and every write succeeds,
  the run returns normally after visiting exactly these seconds in order, and the files it
  leaves are the old ones and one file per second, holding the frame of that second:
  \<open>\<lfloor>duration\<rfloor> - start + 1\<close> files with pairwise distinct names (scenario B in general
  form: six files for start 0 on a 5-second stream).
\<close>

theorem end_defaults_to_duration:
  assumes "0 \<le> q"
    and "end_sec = None \<or> (\<exists>e. end_sec = Some e \<and> \<lfloor>q\<rfloor> < e)"
  shows "effective_end end_sec (Finite q) = Inr \<lfloor>q\<rfloor>
    \<and> (\<forall>env fs url output_dir cap st start_sec.
          open_and_measure env url output_dir (init fs) = (Inr (cap, Finite q), st)
          \<and> max 0 start_sec \<le> \<lfloor>q\<rfloor>
          \<and> (\<forall>k\<in>{max 0 start_sec..\<lfloor>q\<rfloor>}. decode_at cap (k * 1000) \<noteq> None
                \<and> imwrite_outcome env (fname output_dir k) = Written)
          \<longrightarrow> fst (capture_every_second env fs url output_dir start_sec end_sec) = Inr ()
            \<and> trace (snd (capture_every_second env fs url output_dir start_sec end_sec)) =
                trace st @ concat (map (\<lambda>k. [Seek (k * 1000), Read, Write (fname output_dir k)])
                  [max 0 start_sec..\<lfloor>q\<rfloor>]) @ [Release]
            \<and> dom (files (snd (capture_every_second env fs url output_dir start_sec end_sec))) =
                dom (files fs) \<union> fname output_dir ` {max 0 start_sec..\<lfloor>q\<rfloor>}
            \<and> (\<forall>k\<in>{max 0 start_sec..\<lfloor>q\<rfloor>}.
                  files (snd (capture_every_second env fs url output_dir start_sec end_sec))
                    (fname output_dir k) = decode_at cap (k * 1000))
            \<and> card (fname output_dir ` {max 0 start_sec..\<lfloor>q\<rfloor>}) =
                nat (\<lfloor>q\<rfloor> - max 0 start_sec + 1))"
proof -
  have ee: "effective_end end_sec (Finite q) = Inr \<lfloor>q\<rfloor>"
    using assms by (auto simp: effective_end_def py_int_def int_gt_floor)
  have "fst (capture_every_second env fs url output_dir start_sec end_sec) = Inr ()
      \<and> trace (snd (capture_every_second env fs url output_dir start_sec end_sec)) =
          trace st @ concat (map (\<lambda>k. [Seek (k * 1000), Read, Write (fname output_dir k)])
            [max 0 start_sec..\<lfloor>q\<rfloor>]) @ [Release]
      \<and> dom (files (snd (capture_every_second env fs url output_dir start_sec end_sec))) =
          dom (files fs) \<union> fname output_dir ` {max 0 start_sec..\<lfloor>q\<rfloor>}
      \<and> (\<forall>k\<in>{max 0 start_sec..\<lfloor>q\<rfloor>}.
            files (snd (capture_every_second env fs url output_dir start_sec end_sec))
              (fname output_dir k) = decode_at cap (k * 1000))
      \<and> card (fname output_dir ` {max 0 start_sec..\<lfloor>q\<rfloor>}) =
          nat (\<lfloor>q\<rfloor> - max 0 start_sec + 1)"
    if oam: "open_and_measure env url output_dir (init fs) = (Inr (cap, Finite q), st)"
      and le: "max 0 start_sec \<le> \<lfloor>q\<rfloor>"
      and ok: "\<forall>k\<in>{max 0 start_sec..\<lfloor>q\<rfloor>}. decode_at cap (k * 1000) \<noteq> None
                \<and> imwrite_outcome env (fname output_dir k) = Written"
    for env fs url output_dir cap st start_sec
  proof -
    let ?s = "max 0 start_sec"
    let ?l = "frame_loop env cap output_dir [?s..\<lfloor>q\<rfloor>] st"
    have "\<not> \<lfloor>q\<rfloor> < ?s"
      using le by linarith
    then have nr: "normalize_range start_sec end_sec (Finite q) = Inr (?s, \<lfloor>q\<rfloor>)"
      using ee by (simp add: normalize_range_def Let_def del: max_less_iff_conj)
    have c: "\<forall>k\<in>{?s..\<lfloor>q\<rfloor>}. completes env cap output_dir k"
      using ok by (simp add: completes_def)
    note full = loop_range_complete [OF c, of st]
    from full(1) have run: "capture_every_second env fs url output_dir start_sec end_sec =
        (Inr (), cap_release (snd ?l))"
      unfolding run_looped [OF oam nr] by (simp add: split_beta split: sum.splits)
    have fl: "files (cap_release z) = files z" for z
      by (simp add: cap_release_def emit_def)
    from oam have fst: "files st = files fs"
      by (rule setup_trace)
    have 1: "trace (cap_release (snd ?l)) =
        trace st @ concat (map (\<lambda>k. [Seek (k * 1000), Read, Write (fname output_dir k)])
          [?s..\<lfloor>q\<rfloor>]) @ [Release]"
      using full(2) by (simp add: cap_release_def emit_def iter_events_def [abs_def])
    have c': "\<forall>k\<in>set [?s..\<lfloor>q\<rfloor>]. completes env cap output_dir k"
      using c by simp
    have 2: "dom (files (snd ?l)) = dom (files fs) \<union> fname output_dir ` {?s..\<lfloor>q\<rfloor>}"
      unfolding loop_files_dom [OF c', of st] fst using ok by auto
    have 3: "files (snd ?l) (fname output_dir k) = decode_at cap (k * 1000)"
      if k: "k \<in> {?s..\<lfloor>q\<rfloor>}" for k
    proof (rule loop_files_written)
      show "\<forall>j\<in>set [?s..\<lfloor>q\<rfloor>]. completes env cap output_dir j \<and> 0 \<le> j"
        using c by simp
      show "distinct [?s..\<lfloor>q\<rfloor>]" by simp
      show "k \<in> set [?s..\<lfloor>q\<rfloor>]" using k by simp
      show "imwrite_outcome env (fname output_dir k) = Written" using ok k by simp
    qed
    have "inj_on (fname output_dir) {?s..\<lfloor>q\<rfloor>}"
      by (rule inj_on_subset [OF fname_inj_on [of ?s]]) auto
    then have 4: "card (fname output_dir ` {?s..\<lfloor>q\<rfloor>}) = nat (\<lfloor>q\<rfloor> - ?s + 1)"
      by (simp add: card_image)
    from 1 2 3 4 show ?thesis
      unfolding run by (simp add: fl)
  qed
  with ee show ?thesis by blast
qed

text \<open>Scenario B: start 0 and no end on a stream of 150 frames at 30 per second that yields
  a frame at each of the seconds 0 to 5 leaves the six files \<open>frame_0000.jpg\<close> to
  \<open>frame_0005.jpg\<close>.\<close>

theorem end_defaults_to_duration_witness:
  "effective_end None (Finite 5) = Inr 5
   \<and> fst (capture_every_second (demo_env (demo_stream (Finite 30) (Finite 150) []) (\<lambda>p. Written))
      empty_fs ''link'' ''out'' 0 None) = Inr ()
   \<and> trace (snd (capture_every_second
      (demo_env (demo_stream (Finite 30) (Finite 150) []) (\<lambda>p. Written))
      empty_fs ''link'' ''out'' 0 None)) =
     [MkDir ''out'', Resolve ''link'', Open ''stream'',
      Seek 0, Read, Write ''out/frame_0000.jpg'', Seek 1000, Read, Write ''out/frame_0001.jpg'',
      Seek 2000, Read, Write ''out/frame_0002.jpg'', Seek 3000, Read, Write ''out/frame_0003.jpg'',
      Seek 4000, Read, Write ''out/frame_0004.jpg'', Seek 5000, Read, Write ''out/frame_0005.jpg'',
      Release]
   \<and> dom (files (snd (capture_every_second
      (demo_env (demo_stream (Finite 30) (Finite 150) []) (\<lambda>p. Written))
      empty_fs ''link'' ''out'' 0 None))) =
     {''out/frame_0000.jpg'', ''out/frame_0001.jpg'', ''out/frame_0002.jpg'',
      ''out/frame_0003.jpg'', ''out/frame_0004.jpg'', ''out/frame_0005.jpg''}
   \<and> card (fname ''out'' ` {0..5}) = 6"
proof -
  let ?cap = "demo_stream (Finite 30) (Finite 150) []"
  let ?env = "demo_env ?cap (\<lambda>p. Written)"
  let ?st = "\<lparr>dirs = {''out''}, files = Map.empty, pos_msec = 0,
       trace = [MkDir ''out'', Resolve ''link'', Open ''stream'']\<rparr>"
  have 1: "(0::rat) \<le> 5" by simp
  have 2: "(None :: int option) = None \<or> (\<exists>e. None = Some e \<and> \<lfloor>5::rat\<rfloor> < e)" by simp
  have 3: "open_and_measure ?env ''link'' ''out'' (init empty_fs) = (Inr (?cap, Finite 5), ?st)"
    by (simp add: demo_setup true_div_def)
  have 4: "max 0 0 \<le> \<lfloor>5::rat\<rfloor>" by simp
  have 5: "\<forall>k\<in>{max 0 0..\<lfloor>5::rat\<rfloor>}. decode_at ?cap (k * 1000) \<noteq> None
                \<and> imwrite_outcome ?env (fname ''out'' k) = Written"
    by (simp add: demo_stream_def demo_env_def)
  have 6: "[max 0 0..\<lfloor>5::rat\<rfloor>] = [0, 1, 2, 3, 4, 5]"
    by (simp add: upto_01)
  have 7: "{max 0 0..\<lfloor>5::rat\<rfloor>} = {0, 1, 2, 3, 4, 5}"
    using 6 set_upto [of "max 0 0" "\<lfloor>5::rat\<rfloor>"] by (simp only: list.set)
  have 8: "{0..5::int} = {0, 1, 2, 3, 4, 5}"
    using 7 by simp
  from end_defaults_to_duration [OF 1 2] 3 4 5
  have "effective_end None (Finite 5) = Inr \<lfloor>5::rat\<rfloor>
    \<and> fst (capture_every_second ?env empty_fs ''link'' ''out'' 0 None) = Inr ()
    \<and> trace (snd (capture_every_second ?env empty_fs ''link'' ''out'' 0 None)) =
        trace ?st @ concat (map (\<lambda>k. [Seek (k * 1000), Read, Write (fname ''out'' k)])
          [max 0 0..\<lfloor>5::rat\<rfloor>]) @ [Release]
    \<and> dom (files (snd (capture_every_second ?env empty_fs ''link'' ''out'' 0 None))) =
        dom (files empty_fs) \<union> fname ''out'' ` {max 0 0..\<lfloor>5::rat\<rfloor>}
    \<and> card (fname ''out'' ` {max 0 0..\<lfloor>5::rat\<rfloor>}) = nat (\<lfloor>5::rat\<rfloor> - max 0 0 + 1)"
    by blast
  then show ?thesis
    unfolding 6 7 8 by (simp add: frame_names_0_10 empty_fs_def)
qed

text \<open>
  A stream whose frame count reads \<open>-1\<close> at 2 frames per second has the duration \<open>-0.5\<close>.
  Its floor is \<open>-1\<close>, but \<open>int(-0.5)\<close> is \<open>0\<close>: the effective end is 0, the range 0 to 0 is
  not inverted, and the run captures second 0. And on a stream of 150 frames at 30 per
  second whose last frame lies before 5000 milliseconds, the read at second 5 yields no frame:
  the effective end is 5, but the run ends with the five files of the seconds 0 to 4.
\<close>

theorem end_of_negative_duration_is_not_floor:
  "true_div Finite (- 1) (Finite 2) = Inr (Finite (- 1 / 2))
   \<and> effective_end None (Finite (- 1 / 2)) = Inr 0
   \<and> \<lfloor>- 1 / 2 :: rat\<rfloor> = - 1
   \<and> capture_every_second (demo_env (demo_stream (Finite 2) (Finite (- 1)) []) (\<lambda>p. Written))
      empty_fs ''link'' ''out'' 0 None =
     (Inr (), \<lparr>dirs = {''out''}, files = [''out/frame_0000.jpg'' \<mapsto> Frame 0], pos_msec = 0,
        trace = [MkDir ''out'', Resolve ''link'', Open ''stream'',
          Seek 0, Read, Write ''out/frame_0000.jpg'', Release]\<rparr>)
   \<and> true_div Finite 150 (Finite 30) = Inr (Finite 5)
   \<and> effective_end None (Finite 5) = Inr 5
   \<and> fst (capture_every_second
        (demo_env (demo_stream (Finite 30) (Finite 150) [5000]) (\<lambda>p. Written))
        empty_fs ''link'' ''out'' 0 None) = Inr ()
   \<and> dom (files (snd (capture_every_second
        (demo_env (demo_stream (Finite 30) (Finite 150) [5000]) (\<lambda>p. Written))
        empty_fs ''link'' ''out'' 0 None))) =
      {''out/frame_0000.jpg'', ''out/frame_0001.jpg'', ''out/frame_0002.jpg'',
       ''out/frame_0003.jpg'', ''out/frame_0004.jpg''}"
proof -
  have "\<lceil>- (1 / 2) :: rat\<rceil> = 0" "\<lfloor>- (1 / 2) :: rat\<rfloor> = - 1"
    by (simp_all add: ceiling_eq_iff floor_eq_iff)
  then have a: "true_div Finite (- 1) (Finite 2) = Inr (Finite (- 1 / 2))
   \<and> effective_end None (Finite (- 1 / 2)) = Inr 0
   \<and> \<lfloor>- 1 / 2 :: rat\<rfloor> = - 1
   \<and> capture_every_second (demo_env (demo_stream (Finite 2) (Finite (- 1)) []) (\<lambda>p. Written))
      empty_fs ''link'' ''out'' 0 None =
     (Inr (), \<lparr>dirs = {''out''}, files = [''out/frame_0000.jpg'' \<mapsto> Frame 0], pos_msec = 0,
        trace = [MkDir ''out'', Resolve ''link'', Open ''stream'',
          Seek 0, Read, Write ''out/frame_0000.jpg'', Release]\<rparr>)"
    by (simp add: run_defs upto_01 frame_names_0_10)
  have b: "true_div Finite 150 (Finite 30) = Inr (Finite 5)"
    "effective_end None (Finite 5) = Inr 5"
    by (simp_all add: true_div_def effective_end_def py_int_def)
  have c: "fst (capture_every_second
        (demo_env (demo_stream (Finite 30) (Finite 150) [5000]) (\<lambda>p. Written))
        empty_fs ''link'' ''out'' 0 None) = Inr ()"
    by (simp add: run_defs upto_01 frame_names_0_10)
  have d: "dom (files (snd (capture_every_second
        (demo_env (demo_stream (Finite 30) (Finite 150) [5000]) (\<lambda>p. Written))
        empty_fs ''link'' ''out'' 0 None))) =
      {''out/frame_0000.jpg'', ''out/frame_0001.jpg'', ''out/frame_0002.jpg'',
       ''out/frame_0003.jpg'', ''out/frame_0004.jpg''}"
    by (simp add: run_defs upto_01 frame_names_0_10) blast
  from a b c d show ?thesis
    by (simp only: simp_thms)
qed

subsection \<open>C6: the start of the range\<close>

text \<open>
  C6. The effective start second is \<open>max 0 start_sec\<close> (line 75): a negative start is
  clamped to 0 and a start that is not negative is kept. It is the second the loop begins
  with: the first call after the stream is opened seeks to it.
\<close>

theorem negative_start_is_clamped:
  assumes "normalize_range start_sec end_sec duration = Inr (s, e)"
  shows "s = max 0 start_sec
    \<and> (start_sec < 0 \<longrightarrow> s = 0)
    \<and> (0 \<le> start_sec \<longrightarrow> s = start_sec)
    \<and> (\<forall>env fs url output_dir cap st.
          open_and_measure env url output_dir (init fs) = (Inr (cap, duration), st) \<longrightarrow>
          (\<exists>rest. trace (snd (capture_every_second env fs url output_dir start_sec end_sec)) =
             trace st @ Seek (max 0 start_sec * 1000) # rest))"
proof -
  from assms have s: "s = max 0 start_sec"
    by (auto dest: normalize_Inr)
  have "\<exists>rest. trace (snd (capture_every_second env fs url output_dir start_sec end_sec)) =
             trace st @ Seek (max 0 start_sec * 1000) # rest"
    if "open_and_measure env url output_dir (init fs) = (Inr (cap, duration), st)"
    for env fs url output_dir cap st
    using run_first_seek [OF that assms] by (simp add: s)
  with s show ?thesis by auto
qed

text \<open>Start \<open>-3\<close> becomes 0 and the run seeks to 0 first; start 10 stays 10.\<close>

theorem negative_start_is_clamped_witness:
  "normalize_range (- 3) (Some 2) (Finite 20) = Inr (0, 2)
   \<and> normalize_range 10 (Some 12) (Finite 20) = Inr (10, 12)
   \<and> (\<exists>rest. trace (snd (capture_every_second
        (demo_env (demo_stream (Finite 30) (Finite 600) []) (\<lambda>p. Written))
        empty_fs ''link'' ''out'' (- 3) (Some 2))) =
      [MkDir ''out'', Resolve ''link'', Open ''stream''] @ Seek 0 # rest)"
proof -
  let ?cap = "demo_stream (Finite 30) (Finite 600) []"
  let ?env = "demo_env ?cap (\<lambda>p. Written)"
  let ?st = "\<lparr>dirs = {''out''}, files = Map.empty, pos_msec = 0,
       trace = [MkDir ''out'', Resolve ''link'', Open ''stream'']\<rparr>"
  have 1: "normalize_range (- 3) (Some 2) (Finite 20) = Inr (0, 2)"
    by (simp add: normalize_range_def effective_end_def int_gt_def)
  have 2: "normalize_range 10 (Some 12) (Finite 20) = Inr (10, 12)"
    by (simp add: normalize_range_def effective_end_def int_gt_def)
  have 3: "open_and_measure ?env ''link'' ''out'' (init empty_fs) = (Inr (?cap, Finite 20), ?st)"
    by (simp add: demo_setup true_div_def)
  from negative_start_is_clamped [OF 1] 3
  have "\<exists>rest. trace (snd (capture_every_second ?env empty_fs ''link'' ''out'' (- 3) (Some 2))) =
             trace ?st @ Seek (max 0 (- 3) * 1000) # rest"
    by blast
  with 1 2 negative_start_is_clamped [OF 2] show ?thesis
    by simp
qed

subsection \<open>C7: order and names of the frames\<close>

text \<open>
  C7 (as amended). In every run that returns normally (the loop ran to its end, or stopped
  early at a second \<open>t\<close> with no frame) the calls after opening the stream are, for the
  seconds from the normalised start to \<open>t - 1\<close> in increasing order and without a gap, a
  seek to \<open>k * 1000\<close> milliseconds, a read, and a write to the file \<open>frame_<k as 04d>.jpg\<close>
  in \<open>output_dir\<close>; then the release (after the seek and the failed read of \<open>t\<close> when the
  loop stopped early). The names are pairwise distinct. The files the run adds are exactly
  those of these writes that \<open>cv2.imwrite\<close> reports as written: line 95 discards that
  report, so a second whose write fails without raising is missing among the files.
\<close>

theorem frames_written_in_order:
  assumes "fst (capture_every_second env fs url output_dir start_sec end_sec) = Inr ()"
  shows "\<exists>stream_url t tl.
      max 0 start_sec \<le> t
    \<and> trace (snd (capture_every_second env fs url output_dir start_sec end_sec)) =
        [MkDir output_dir, Resolve url, Open stream_url]
        @ concat (map (\<lambda>k. [Seek (k * 1000), Read, Write (path_join output_dir (frame_name k))])
            [max 0 start_sec..t - 1])
        @ tl
    \<and> (tl = [Release] \<or> tl = [Seek (t * 1000), Read, Release])
    \<and> distinct (map (\<lambda>k. path_join output_dir (frame_name k)) [max 0 start_sec..t - 1])
    \<and> dom (files (snd (capture_every_second env fs url output_dir start_sec end_sec))) =
        dom (files fs) \<union> {path_join output_dir (frame_name k) |k.
          k \<in> {max 0 start_sec..<t} \<and> imwrite_outcome env (path_join output_dir (frame_name k)) = Written}"
proof (cases rule: run_cases [where env = env and url = url and d = output_dir and fs = fs
      and a = start_sec and b = end_sec])
  case (setup_fail x st)
  from run_setup_fail [OF this] assms show ?thesis by simp
next
  case (range_fail cap dur st x)
  from run_range_fail [OF this] assms show ?thesis by simp
next
  case (looped cap dur st s e)
  let ?run = "capture_every_second env fs url output_dir start_sec end_sec"
  let ?l = "frame_loop env cap output_dir [s..e] st"
  note run = run_looped [OF looped]
  from looped(2) have s: "s = max 0 start_sec" "s \<le> e" "0 \<le> s"
    by (auto dest: normalize_Inr)
  from looped(1) obtain u where st: "trace st = [MkDir output_dir, Resolve url, Open u]"
    "files st = files fs"
    by (rule setup_trace)
  from assms have fin: "snd ?run = cap_release (snd ?l)"
    unfolding run by (simp split: sum.splits)
  show ?thesis
  proof (cases rule: loop_range_cases [where s = s and e = e and env = env and cap = cap
        and d = output_dir])
    case complete
    note full = loop_range_complete [OF complete, of st]
    have "\<forall>k\<in>set [s..e]. completes env cap output_dir k"
      using complete by simp
    from loop_files_dom [OF this, of st]
    have d: "dom (files (snd ?run)) = dom (files fs) \<union> {fname output_dir k |k.
          k \<in> {s..<e + 1} \<and> imwrite_outcome env (fname output_dir k) = Written}"
      unfolding fin by (auto simp: cap_release_def emit_def st(2))
    have "s \<le> e + 1
      \<and> trace (snd ?run) = [MkDir output_dir, Resolve url, Open u]
          @ concat (map (iter_events output_dir) [s..e + 1 - 1]) @ [Release]
      \<and> ([Release] = [Release] \<or> [Release] = [Seek ((e + 1) * 1000), Read, Release])
      \<and> distinct (map (fname output_dir) [s..e + 1 - 1])"
      unfolding fin using full(2) s
      by (simp add: cap_release_def emit_def st(1) distinct_fnames)
    with d show ?thesis
      unfolding fname_def [symmetric] iter_events_def [symmetric] s(1) [symmetric]
      by (intro exI [of _ u] exI [of _ "e + 1"] exI [of _ "[Release]"]) (simp only: simp_thms)
  next
    case (stop t)
    note early = loop_range_stop [OF stop, of st]
    have "\<forall>k\<in>set [s..t - 1]. completes env cap output_dir k"
      using stop(3) by simp
    from loop_files_dom [OF this, of st]
    have d: "dom (files (snd ?run)) = dom (files fs) \<union> {fname output_dir k |k.
          k \<in> {s..<t} \<and> imwrite_outcome env (fname output_dir k) = Written}"
      unfolding fin using early(3) by (auto simp: cap_release_def emit_def st(2))
    let ?tl = "[Seek (t * 1000), Read, Release]"
    have "s \<le> t
      \<and> trace (snd ?run) = [MkDir output_dir, Resolve url, Open u]
          @ concat (map (iter_events output_dir) [s..t - 1]) @ ?tl
      \<and> (?tl = [Release] \<or> ?tl = [Seek (t * 1000), Read, Release])
      \<and> distinct (map (fname output_dir) [s..t - 1])"
      unfolding fin using early(2) stop(1) s
      by (simp add: cap_release_def emit_def st(1) distinct_fnames)
    with d show ?thesis
      unfolding fname_def [symmetric] iter_events_def [symmetric] s(1) [symmetric]
      by (intro exI [of _ u] exI [of _ t] exI [of _ ?tl]) (simp only: simp_thms)
  next
    case (raise t fr)
    from loop_range_raise(1) [OF raise, of st] assms show ?thesis
      unfolding run by simp
  qed
qed


text \<open>Scenario A: seconds 10 to 12 of a 20-second stream.\<close>

theorem frames_written_in_order_witness:
  "fst (capture_every_second (demo_env (demo_stream (Finite 30) (Finite 600) []) (\<lambda>p. Written))
      empty_fs ''link'' ''out'' 10 (Some 12)) = Inr ()
   \<and> trace (snd (capture_every_second
        (demo_env (demo_stream (Finite 30) (Finite 600) []) (\<lambda>p. Written))
        empty_fs ''link'' ''out'' 10 (Some 12))) =
      [MkDir ''out'', Resolve ''link'', Open ''stream'',
       Seek 10000, Read, Write ''out/frame_0010.jpg'',
       Seek 11000, Read, Write ''out/frame_0011.jpg'',
       Seek 12000, Read, Write ''out/frame_0012.jpg'', Release]
   \<and> (\<exists>stream_url t tl.
      max 0 10 \<le> t
    \<and> trace (snd (capture_every_second
        (demo_env (demo_stream (Finite 30) (Finite 600) []) (\<lambda>p. Written))
        empty_fs ''link'' ''out'' 10 (Some 12))) =
        [MkDir ''out'', Resolve ''link'', Open stream_url]
        @ concat (map (\<lambda>k. [Seek (k * 1000), Read, Write (path_join ''out'' (frame_name k))])
            [max 0 10..t - 1])
        @ tl
    \<and> (tl = [Release] \<or> tl = [Seek (t * 1000), Read, Release])
    \<and> distinct (map (\<lambda>k. path_join ''out'' (frame_name k)) [max 0 10..t - 1])
    \<and> dom (files (snd (capture_every_second
        (demo_env (demo_stream (Finite 30) (Finite 600) []) (\<lambda>p. Written))
        empty_fs ''link'' ''out'' 10 (Some 12)))) =
        dom (files empty_fs) \<union> {path_join ''out'' (frame_name k) |k.
          k \<in> {max 0 10..<t} \<and> imwrite_outcome
            (demo_env (demo_stream (Finite 30) (Finite 600) []) (\<lambda>p. Written))
            (path_join ''out'' (frame_name k)) = Written})"
proof -
  let ?run = "capture_every_second (demo_env (demo_stream (Finite 30) (Finite 600) []) (\<lambda>p. Written))
      empty_fs ''link'' ''out'' 10 (Some 12)"
  have a: "fst ?run = Inr ()"
    by (simp add: run_defs)
  have b: "trace (snd ?run) =
      [MkDir ''out'', Resolve ''link'', Open ''stream'',
       Seek 10000, Read, Write ''out/frame_0010.jpg'',
       Seek 11000, Read, Write ''out/frame_0011.jpg'',
       Seek 12000, Read, Write ''out/frame_0012.jpg'', Release]"
    by (simp add: run_defs frame_names_0_10)
  from a b frames_written_in_order [OF a] show ?thesis
    by (intro conjI)
qed

text \<open>
  Seconds 10 to 12 of the same stream, when the write of second 11 fails by returning
  \<open>False\<close>: the run returns normally and leaves \<open>frame_0010.jpg\<close> and \<open>frame_0012.jpg\<close>,
  with second 11 skipped between the first and the last written second.
\<close>

theorem unwritten_second_leaves_gap:
  "capture_every_second
      (demo_env (demo_stream (Finite 30) (Finite 600) [])
        (\<lambda>p. if p = ''out/frame_0011.jpg'' then NotWritten else Written))
      empty_fs ''link'' ''out'' 10 (Some 12) =
     (Inr (),
      \<lparr>dirs = {''out''},
       files = [''out/frame_0010.jpg'' \<mapsto> Frame 10000, ''out/frame_0012.jpg'' \<mapsto> Frame 12000],
       pos_msec = 12000,
       trace = [MkDir ''out'', Resolve ''link'', Open ''stream'',
         Seek 10000, Read, Write ''out/frame_0010.jpg'',
         Seek 11000, Read, Write ''out/frame_0011.jpg'',
         Seek 12000, Read, Write ''out/frame_0012.jpg'', Release]\<rparr>)
   \<and> ''out/frame_0011.jpg'' \<notin> dom (files (snd (capture_every_second
      (demo_env (demo_stream (Finite 30) (Finite 600) [])
        (\<lambda>p. if p = ''out/frame_0011.jpg'' then NotWritten else Written))
      empty_fs ''link'' ''out'' 10 (Some 12))))"
  by (simp add: run_defs frame_names_0_10)

subsection \<open>C8: a write that fails\<close>

text \<open>
  C8 (as amended). When the call of \<open>cv2.imwrite\<close> for a decoded frame raises, the run
  aborts with that exception: the failed write is its last call, and no later second is
  sought. (The return value of \<open>cv2.imwrite\<close> is not looked at, so a write that only
  reports failure by returning \<open>False\<close> does not abort the run; see the counterexample.)
\<close>

theorem write_raise_aborts:
  assumes "open_and_measure env url output_dir (init fs) = (Inr (cap, duration), st)"
    and "normalize_range start_sec end_sec duration = Inr (s, e)"
    and "s \<le> t" and "t \<le> e"
    and "\<forall>k\<in>{s..<t}. decode_at cap (k * 1000) \<noteq> None
           \<and> imwrite_outcome env (fname output_dir k) \<noteq> WriteRaised"
    and "decode_at cap (t * 1000) \<noteq> None"
    and "imwrite_outcome env (fname output_dir t) = WriteRaised"
  shows "fst (capture_every_second env fs url output_dir start_sec end_sec) = Inl CvError
    \<and> trace (snd (capture_every_second env fs url output_dir start_sec end_sec)) =
        trace st @ concat (map (\<lambda>k. [Seek (k * 1000), Read, Write (fname output_dir k)]) [s..t])
    \<and> (\<forall>k. t < k \<longrightarrow>
          Seek (k * 1000) \<notin> set (trace (snd (capture_every_second env fs url output_dir start_sec end_sec))))"
proof -
  let ?run = "capture_every_second env fs url output_dir start_sec end_sec"
  have c: "\<forall>k\<in>{s..<t}. completes env cap output_dir k"
    using assms(5) by (simp add: completes_def)
  from assms(6) obtain fr where fr: "decode_at cap (t * 1000) = Some fr"
    by auto
  note r = loop_range_raise [OF assms(3,4) c fr assms(7), of st]
  have run: "?run = (Inl CvError, snd (frame_loop env cap output_dir [s..e] st))"
    unfolding run_looped [OF assms(1,2)] using r(1) by simp
  from assms(1) obtain u where st: "trace st = [MkDir output_dir, Resolve url, Open u]"
    by (rule setup_trace)
  have tr: "trace (snd ?run) =
      trace st @ concat (map (\<lambda>k. [Seek (k * 1000), Read, Write (fname output_dir k)]) [s..t])"
    unfolding run using r(2) by (simp add: iter_events_def [abs_def])
  have "Seek (k * 1000) \<notin> set (trace (snd ?run))" if "t < k" for k
    unfolding tr st using that by auto
  with run tr show ?thesis by simp
qed


text \<open>The write of second 2 raises in a run over the seconds 0 to 5.\<close>

theorem write_raise_aborts_witness:
  "fst (capture_every_second (demo_env (demo_stream (Finite 30) (Finite 600) [])
        (\<lambda>p. if p = ''out/frame_0002.jpg'' then WriteRaised else Written))
      empty_fs ''link'' ''out'' 0 (Some 5)) = Inl CvError
   \<and> trace (snd (capture_every_second (demo_env (demo_stream (Finite 30) (Finite 600) [])
        (\<lambda>p. if p = ''out/frame_0002.jpg'' then WriteRaised else Written))
      empty_fs ''link'' ''out'' 0 (Some 5))) =
      [MkDir ''out'', Resolve ''link'', Open ''stream'',
       Seek 0, Read, Write ''out/frame_0000.jpg'', Seek 1000, Read, Write ''out/frame_0001.jpg'',
       Seek 2000, Read, Write ''out/frame_0002.jpg'']"
proof -
  let ?cap = "demo_stream (Finite 30) (Finite 600) []"
  let ?env = "demo_env ?cap (\<lambda>p. if p = ''out/frame_0002.jpg'' then WriteRaised else Written)"
  let ?st = "\<lparr>dirs = {''out''}, files = Map.empty, pos_msec = 0,
       trace = [MkDir ''out'', Resolve ''link'', Open ''stream'']\<rparr>"
  have 1: "open_and_measure ?env ''link'' ''out'' (init empty_fs) = (Inr (?cap, Finite 20), ?st)"
    by (simp add: demo_setup true_div_def)
  have 2: "normalize_range 0 (Some 5) (Finite 20) = Inr (0, 5)"
    by (simp add: normalize_range_def effective_end_def int_gt_def)
  have 3: "(0::int) \<le> 2" "(2::int) \<le> 5"
    by simp_all
  have "fname ''out'' k \<noteq> ''out/frame_0002.jpg''" if "k \<in> {0..<2}" for k :: int
    using that fname_inj [of k 2 "''out''"] by (auto simp: frame_names_0_10)
  then have 4: "\<forall>k\<in>{0..<2}. decode_at ?cap (k * 1000) \<noteq> None
      \<and> imwrite_outcome ?env (fname ''out'' k) \<noteq> WriteRaised"
    by (simp add: demo_stream_def demo_env_def)
  have 5: "decode_at ?cap (2 * 1000) \<noteq> None"
    by (simp add: demo_stream_def)
  have 6: "imwrite_outcome ?env (fname ''out'' 2) = WriteRaised"
    by (simp add: demo_env_def frame_names_0_10)
  have 7: "[0..2] = [0, 1, 2::int]"
    by (simp add: upto_01)
  from write_raise_aborts [OF 1 2 3 4 5 6] show ?thesis
    unfolding 7 by (simp add: frame_names_0_10)
qed

text \<open>
  Every write returns \<open>False\<close> (nothing can be persisted): the run over the seconds
  0 to 2 goes through all three seconds, returns normally and leaves no file.
\<close>

theorem failed_write_does_not_abort:
  "capture_every_second (demo_env (demo_stream (Finite 30) (Finite 600) []) (\<lambda>p. NotWritten))
      empty_fs ''link'' ''out'' 0 (Some 2) =
     (Inr (), \<lparr>dirs = {''out''}, files = Map.empty, pos_msec = 2000,
        trace = [MkDir ''out'', Resolve ''link'', Open ''stream'',
          Seek 0, Read, Write ''out/frame_0000.jpg'',
          Seek 1000, Read, Write ''out/frame_0001.jpg'',
          Seek 2000, Read, Write ''out/frame_0002.jpg'', Release]\<rparr>)"
  by (simp add: run_defs upto_01 frame_names_0_10)

subsection \<open>C9: running the same request twice\<close>

text \<open>
  C9. Running the same request a second time against the file system the first run left
  behind, with the link resolving to the same stream and every write having the same outcome,
  is idempotent: the second run has the same result and makes the same calls, so it writes
  exactly the same file names as the first; the file system after it is the one after the
  first run, so every file is overwritten in place and none is added; and when the call of
  \<open>os.makedirs\<close> succeeded in the first run, the directory exists afterwards and the
  call succeeds again in the second run.
\<close>

theorem second_run_changes_nothing:
  "fst (capture_every_second env
        (fs_of (snd (capture_every_second env fs url output_dir start_sec end_sec)))
        url output_dir start_sec end_sec)
     = fst (capture_every_second env fs url output_dir start_sec end_sec)
   \<and> trace (snd (capture_every_second env
        (fs_of (snd (capture_every_second env fs url output_dir start_sec end_sec)))
        url output_dir start_sec end_sec))
     = trace (snd (capture_every_second env fs url output_dir start_sec end_sec))
   \<and> fs_of (snd (capture_every_second env
        (fs_of (snd (capture_every_second env fs url output_dir start_sec end_sec)))
        url output_dir start_sec end_sec))
     = fs_of (snd (capture_every_second env fs url output_dir start_sec end_sec))
   \<and> (fst (makedirs output_dir (init fs)) = Inr () \<longrightarrow>
        output_dir \<in> dirs (snd (capture_every_second env fs url output_dir start_sec end_sec))
        \<and> fst (makedirs output_dir
              (init (fs_of (snd (capture_every_second env fs url output_dir start_sec end_sec)))))
            = Inr ())"
  supply init_fs_of [simp]
proof (cases "fst (makedirs output_dir (init fs)) = Inr ()")
  case False
  from makedirs_fail [OF this] obtain x where
    "makedirs output_dir (init fs) = (Inl x, emit (MkDir output_dir) (init fs))"
    by blast
  then have "capture_every_second env fs url output_dir start_sec end_sec =
      (Inl x, emit (MkDir output_dir) (init fs))"
    by (simp add: capture_every_second_def open_and_measure_def)
  then have "fs_of (snd (capture_every_second env fs url output_dir start_sec end_sec)) = fs"
    by (simp add: fs_of_init_emit)
  then show ?thesis using False by (simp only: simp_thms)
next
  case True
  let ?run = "capture_every_second env fs url output_dir start_sec end_sec"
  let ?fs' = "fs_of (snd ?run)"
  let ?run' = "capture_every_second env ?fs' url output_dir start_sec end_sec"
  from True have ok: "output_dir \<noteq> []" "\<forall>a\<in>set (ancestors output_dir). files fs a = None"
    by (simp_all add: makedirs_ok_iff)
  have d1: "dirs (snd ?run) = dirs fs \<union> set (ancestors output_dir)"
    unfolding run_dirs using oam_dirs [OF True, of env url] by simp
  have "files (snd ?run) a = None" if "a \<in> set (ancestors output_dir)" for a
  proof -
    from that have "a \<notin> range (fname output_dir)"
      using fname_not_ancestor [of output_dir] by auto
    then show ?thesis
      using ok(2) that by (simp add: run_files_frame)
  qed
  with ok(1) have True': "fst (makedirs output_dir (init ?fs')) = Inr ()"
    by (simp add: makedirs_ok_iff)
  have d2: "dirs (snd ?run') = dirs (snd ?run)"
    unfolding run_dirs [of env ?fs'] using oam_dirs [OF True', of env url] d1 by auto
  from run_two [OF True True', of env url start_sec end_sec] obtain D where
    r: "fst ?run = fst ?run'" "trace (snd ?run) = trace (snd ?run')"
    and f: "files (snd ?run) = files fs ++ D" "files (snd ?run') = files ?fs' ++ D"
    by auto
  have "files ?fs' = files fs ++ D"
    using f(1) by (simp add: fs_of_def)
  then have "files (snd ?run') = (files fs ++ D) ++ D"
    using f(2) by (simp only:)
  also have "\<dots> = files fs ++ D"
    by (simp only: map_add_assoc [symmetric] map_add_subsumed1 [OF map_le_refl])
  finally have f3: "files (snd ?run') = files (snd ?run)"
    using f(1) by (simp only:)
  have "output_dir \<in> dirs (snd ?run)"
    unfolding d1 by (simp add: ancestors_def)
  then have d3: "output_dir \<in> dirs (snd ?run)" .
  have "fs_of (snd ?run') = fs_of (snd ?run)"
    using d2 f3 by (simp only: fs_of_eq_iff simp_thms)
  with r [symmetric] d3 True' show ?thesis
    by (simp only: simp_thms)
qed


text \<open>Scenario A run twice: seconds 10 to 12 of a 20-second stream into a fresh \<open>out\<close>.\<close>

theorem second_run_changes_nothing_witness:
  "fst (makedirs ''out'' (init empty_fs)) = Inr ()
   \<and> dom (files (snd (capture_every_second
        (demo_env (demo_stream (Finite 30) (Finite 600) []) (\<lambda>p. Written))
        empty_fs ''link'' ''out'' 10 (Some 12)))) =
      {''out/frame_0010.jpg'', ''out/frame_0011.jpg'', ''out/frame_0012.jpg''}
   \<and> ''out'' \<in> dirs (snd (capture_every_second
        (demo_env (demo_stream (Finite 30) (Finite 600) []) (\<lambda>p. Written))
        empty_fs ''link'' ''out'' 10 (Some 12)))
   \<and> fst (makedirs ''out'' (init (fs_of (snd (capture_every_second
        (demo_env (demo_stream (Finite 30) (Finite 600) []) (\<lambda>p. Written))
        empty_fs ''link'' ''out'' 10 (Some 12)))))) = Inr ()
   \<and> fs_of (snd (capture_every_second
        (demo_env (demo_stream (Finite 30) (Finite 600) []) (\<lambda>p. Written))
        (fs_of (snd (capture_every_second
          (demo_env (demo_stream (Finite 30) (Finite 600) []) (\<lambda>p. Written))
          empty_fs ''link'' ''out'' 10 (Some 12))))
        ''link'' ''out'' 10 (Some 12))) =
      fs_of (snd (capture_every_second
        (demo_env (demo_stream (Finite 30) (Finite 600) []) (\<lambda>p. Written))
        empty_fs ''link'' ''out'' 10 (Some 12)))"
proof -
  let ?env = "demo_env (demo_stream (Finite 30) (Finite 600) []) (\<lambda>p. Written)"
  let ?run = "capture_every_second ?env empty_fs ''link'' ''out'' 10 (Some 12)"
  have a: "fst (makedirs ''out'' (init empty_fs)) = Inr ()"
    by (simp add: makedirs_def init_def empty_fs_def emit_def ancestors_def Let_def)
  have b: "dom (files (snd ?run)) =
      {''out/frame_0010.jpg'', ''out/frame_0011.jpg'', ''out/frame_0012.jpg''}"
    by (simp add: run_defs frame_names_0_10) blast
  from a b second_run_changes_nothing [where env = ?env and fs = empty_fs and url = "''link''"
      and output_dir = "''out''" and start_sec = 10 and end_sec = "Some 12"]
  show ?thesis
    by (simp only: simp_thms)
qed

subsection \<open>C10: the output directory\<close>

text \<open>
  C10 (as amended). The call of \<open>os.makedirs\<close> is the first action of every run, before
  the link is resolved, the stream opened and the range checked. Unless that call itself
  raises (the path is empty, or it or one of its parents is an existing regular file), the
  output directory and its parents exist at the end of the run, whatever the outcome.
\<close>

theorem directory_is_made_first:
  "(\<exists>rest. trace (snd (capture_every_second env fs url output_dir start_sec end_sec)) =
      MkDir output_dir # rest)
   \<and> (output_dir \<noteq> [] \<and> (\<forall>a\<in>set (ancestors output_dir). files fs a = None) \<longrightarrow>
        output_dir \<in> dirs (snd (capture_every_second env fs url output_dir start_sec end_sec))
        \<and> set (ancestors output_dir)
            \<subseteq> dirs (snd (capture_every_second env fs url output_dir start_sec end_sec)))"
proof -
  have "output_dir \<in> dirs (snd (capture_every_second env fs url output_dir start_sec end_sec))
        \<and> set (ancestors output_dir)
            \<subseteq> dirs (snd (capture_every_second env fs url output_dir start_sec end_sec))"
    if "output_dir \<noteq> []" "\<forall>a\<in>set (ancestors output_dir). files fs a = None"
  proof -
    from that have "fst (makedirs output_dir (init fs)) = Inr ()"
      by (simp add: makedirs_ok_iff init_def)
    then have "dirs (snd (capture_every_second env fs url output_dir start_sec end_sec)) =
        dirs (init fs) \<union> set (ancestors output_dir)"
      unfolding run_dirs by (rule oam_dirs)
    moreover have "output_dir \<in> set (ancestors output_dir)"
      by (simp add: ancestors_def)
    ultimately show ?thesis by simp
  qed
  with run_trace_head [of env fs url output_dir start_sec end_sec] show ?thesis
    by blast
qed

text \<open>A run that aborts because the link cannot be resolved still leaves \<open>out\<close> and
  \<open>out/frames\<close>.\<close>

theorem directory_is_made_first_witness:
  "fst (capture_every_second
      \<lparr>extract_info = (\<lambda>u. Inl DownloadError),
       video_capture = (\<lambda>u. demo_stream (Finite 30) (Finite 600) []),
       imwrite_outcome = (\<lambda>p. Written), float_round = Finite\<rparr>
      empty_fs ''link'' ''out/frames'' 0 None) = Inl DownloadError
   \<and> ''out/frames'' \<in> dirs (snd (capture_every_second
      \<lparr>extract_info = (\<lambda>u. Inl DownloadError),
       video_capture = (\<lambda>u. demo_stream (Finite 30) (Finite 600) []),
       imwrite_outcome = (\<lambda>p. Written), float_round = Finite\<rparr>
      empty_fs ''link'' ''out/frames'' 0 None))
   \<and> ''out'' \<in> dirs (snd (capture_every_second
      \<lparr>extract_info = (\<lambda>u. Inl DownloadError),
       video_capture = (\<lambda>u. demo_stream (Finite 30) (Finite 600) []),
       imwrite_outcome = (\<lambda>p. Written), float_round = Finite\<rparr>
      empty_fs ''link'' ''out/frames'' 0 None))"
proof -
  let ?env = "\<lparr>extract_info = (\<lambda>u. Inl DownloadError),
       video_capture = (\<lambda>u. demo_stream (Finite 30) (Finite 600) []),
       imwrite_outcome = (\<lambda>p. Written), float_round = Finite\<rparr>"
  have anc: "ancestors ''out/frames'' = [''out'', ''out/frames'']"
    by code_simp
  have 1: "''out/frames'' \<noteq> [] \<and> (\<forall>a\<in>set (ancestors ''out/frames''). files empty_fs a = None)"
    by (simp add: empty_fs_def)
  have 2: "fst (capture_every_second ?env empty_fs ''link'' ''out/frames'' 0 None) = Inl DownloadError"
    by (simp add: capture_every_second_def open_and_measure_def makedirs_def ydl_extract_def
        emit_def init_def empty_fs_def Let_def anc)
  from directory_is_made_first [of ?env empty_fs "''link''" "''out/frames''" 0 None] 1
  have "set (ancestors ''out/frames'')
      \<subseteq> dirs (snd (capture_every_second ?env empty_fs ''link'' ''out/frames'' 0 None))"
    by blast
  with 2 show ?thesis
    by (simp add: anc)
qed

text \<open>
  When \<open>frames\<close> is an existing regular file, \<open>os.makedirs\<close> raises
  \<open>FileExistsError\<close> although \<open>exist_ok\<close> is set: the run ends there and no directory
  \<open>frames\<close> exists after it.
\<close>

theorem directory_missing_when_path_is_a_file:
  "capture_every_second (demo_env (demo_stream (Finite 30) (Finite 600) []) (\<lambda>p. Written))
      \<lparr>dirs = {}, files = [''frames'' \<mapsto> Frame 0]\<rparr> ''link'' ''frames'' 0 None =
     (Inl FileExistsError,
      \<lparr>dirs = {}, files = [''frames'' \<mapsto> Frame 0], pos_msec = 0, trace = [MkDir ''frames'']\<rparr>)
   \<and> ''frames'' \<notin> dirs (snd (capture_every_second
      (demo_env (demo_stream (Finite 30) (Finite 600) []) (\<lambda>p. Written))
      \<lparr>dirs = {}, files = [''frames'' \<mapsto> Frame 0]\<rparr> ''link'' ''frames'' 0 None))"
  by (simp add: capture_every_second_def open_and_measure_def makedirs_def emit_def init_def
      ancestors_def Let_def)

end
